(* ===== verification/Prelude.thy ===== *)
theory Prelude
  imports Main "HOL-Library.Word"
begin

text \<open>
  Shared vocabulary of the Noise security provider: byte buffers, the C++ library routines that
  the sources call on them, the outcome of an operation that may abort the process, command
  sequences with an early return, and the interfaces (as locales) that several classes of the
  program implement: an ordered message link between two endpoints and an object whose moves
  leave no secret behind.
\<close>

unbundle bit_operations_syntax

named_theorems len_simps "lengths of the buffers the operations produce"
named_theorems wf_intros "preservation of the well-formedness invariants"

section \<open>Byte buffers\<close>

type_synonym byte = "8 word"
type_synonym bytes = "byte list"

abbreviation zeros :: "nat \<Rightarrow> bytes" where
  "zeros n \<equiv> replicate n 0"

definition all_zero :: "bytes \<Rightarrow> bool" where
  "all_zero b \<longleftrightarrow> list_all (\<lambda>x. x = 0) b"

lemma all_zero_zeros [simp]: "all_zero (zeros n)"
  by (simp add: all_zero_def list_all_iff)

lemma all_zero_iff: "all_zero b \<longleftrightarrow> b = zeros (length b)"
proof
  assume "all_zero b"
  then show "b = zeros (length b)" by (intro replicate_eqI) (simp_all add: all_zero_def list_all_iff)
next
  assume "b = zeros (length b)"
  then show "all_zero b" by (metis all_zero_zeros)
qed

text \<open>
  \<^verbatim>\<open>std::memcpy(dst, src, n)\<close> on a fixed-size destination array: the first \<open>n\<close> bytes are
  replaced, the tail of the destination stays.
\<close>

definition memcpy :: "bytes \<Rightarrow> bytes \<Rightarrow> nat \<Rightarrow> bytes" where
  "memcpy dst src n = take n src @ drop n dst"

lemma memcpy_full: "length dst = n \<Longrightarrow> n \<le> length src \<Longrightarrow> memcpy dst src n = take n src"
  by (simp add: memcpy_def)

lemma length_memcpy [len_simps]:
  "n \<le> length src \<Longrightarrow> n \<le> length dst \<Longrightarrow> length (memcpy dst src n) = length dst"
  by (simp add: memcpy_def)

lemma take_append_exact: "length xs = n \<Longrightarrow> take n (xs @ ys) = xs"
  by simp

lemma drop_append_exact: "length xs = n \<Longrightarrow> drop n (xs @ ys) = ys"
  by simp

section \<open>Outcomes\<close>

text \<open>
  An operation of the program either returns or aborts the process. The only calls of
  \<^verbatim>\<open>std::abort\<close> are the two nonce guards of \<^verbatim>\<open>cipher.cpp\<close>.
\<close>

datatype fatal = EncryptNonceWrap | DecryptNonceWrap

datatype 'a outcome = Returns 'a | Aborts fatal

primrec bind_outcome :: "'a outcome \<Rightarrow> ('a \<Rightarrow> 'b outcome) \<Rightarrow> 'b outcome" where
  "bind_outcome (Returns a) f = f a"
| "bind_outcome (Aborts e) f = Aborts e"

lemma bind_outcome_Returns [simp]:
  "bind_outcome m f = Returns b \<longleftrightarrow> (\<exists>a. m = Returns a \<and> f a = Returns b)"
  by (cases m) auto

lemma bind_outcome_Aborts:
  "bind_outcome m f = Aborts e \<longleftrightarrow> m = Aborts e \<or> (\<exists>a. m = Returns a \<and> f a = Aborts e)"
  by (cases m) auto

lemma bind_outcome_assoc:
  "bind_outcome (bind_outcome m f) g = bind_outcome m (\<lambda>a. bind_outcome (f a) g)"
  by (cases m) simp_all

text \<open>
  A local lambda of the form \<^verbatim>\<open>[&]() -> bool\<close> is a command on the captured state; a body such
  as \<^verbatim>\<open>if (!c1()) return nullopt; if (!c2()) return nullopt; ...\<close> runs a list of commands and
  stops at the first one that answers \<^const>\<open>False\<close>, keeping the state it left.
\<close>

type_synonym 's command = "'s \<Rightarrow> (bool \<times> 's) outcome"

fun run_seq :: "'s command list \<Rightarrow> 's command" where
  "run_seq [] s = Returns (True, s)"
| "run_seq (c # cs) s =
     bind_outcome (c s) (\<lambda>(ok, s'). if ok then run_seq cs s' else Returns (False, s'))"

lemma run_seq_append:
  "run_seq (cs @ ds) s =
     bind_outcome (run_seq cs s) (\<lambda>(ok, s'). if ok then run_seq ds s' else Returns (False, s'))"
proof (induction cs arbitrary: s)
  case Nil
  then show ?case by simp
next
  case (Cons c cs)
  then show ?case by (cases "c s") auto
qed

text \<open>A property that every command keeps is kept by the sequence, also when it stops early.\<close>

lemma run_seq_preserves:
  assumes "\<And>c s ok s'. c \<in> set cs \<Longrightarrow> P s \<Longrightarrow> c s = Returns (ok, s') \<Longrightarrow> P s'"
    and "P s" and "run_seq cs s = Returns (ok, s')"
  shows "P s'"
  using assms
proof (induction cs arbitrary: s)
  case Nil
  then show ?case by simp
next
  case (Cons c cs)
  from Cons.prems(3) obtain b t where c: "c s = Returns (b, t)"
    and rest: "(if b then run_seq cs t else Returns (False, t)) = Returns (ok, s')"
    by auto
  have t: "P t" using Cons.prems(1) [of c s b t] Cons.prems(2) c by simp
  show ?case
  proof (cases b)
    case True
    with rest have "run_seq cs t = Returns (ok, s')" by simp
    with t Cons.prems(1) show ?thesis by (meson Cons.IH list.set_intros(2))
  next
    case False
    with rest t show ?thesis by simp
  qed
qed

section \<open>Interfaces\<close>

subsection \<open>An ordered link between two endpoints\<close>

text \<open>
  Frames sent one after the other by one endpoint and handed in order to the other one. A
  receiver stops at the first frame that it rejects.
\<close>

fun send_all :: "('a \<Rightarrow> 'm \<Rightarrow> ('w \<times> 'a) outcome) \<Rightarrow> 'a \<Rightarrow> 'm list \<Rightarrow> ('w list \<times> 'a) outcome" where
  "send_all f a [] = Returns ([], a)"
| "send_all f a (m # ms) =
     bind_outcome (f a m) (\<lambda>(w, a').
       bind_outcome (send_all f a' ms) (\<lambda>(ws, a''). Returns (w # ws, a'')))"

fun recv_all ::
  "('b \<Rightarrow> 'w \<Rightarrow> ('m option \<times> 'b) outcome) \<Rightarrow> 'b \<Rightarrow> 'w list \<Rightarrow> ('m list option \<times> 'b) outcome" where
  "recv_all rcv b [] = Returns (Some [], b)"
| "recv_all rcv b (w # ws) =
     bind_outcome (rcv b w) (\<lambda>(m, b').
       case m of None \<Rightarrow> Returns (None, b')
       | Some m \<Rightarrow> bind_outcome (recv_all rcv b' ws)
           (\<lambda>(ms, b''). Returns (map_option ((#) m) ms, b'')))"

locale framed_link =
  fixes transmit :: "'a \<Rightarrow> 'm \<Rightarrow> ('w \<times> 'a) outcome"
    and receive :: "'b \<Rightarrow> 'w \<Rightarrow> ('m option \<times> 'b) outcome"
    and linked :: "'a \<Rightarrow> 'b \<Rightarrow> bool"
  assumes deliver: "linked a b \<Longrightarrow> transmit a m = Returns (w, a') \<Longrightarrow>
      \<exists>b'. receive b w = Returns (Some m, b') \<and> linked a' b'"
begin

lemma stream_delivery:
  "linked a b \<Longrightarrow> send_all transmit a ms = Returns (ws, a') \<Longrightarrow>
     \<exists>b'. recv_all receive b ws = Returns (Some ms, b') \<and> linked a' b'"
proof (induction ms arbitrary: a b ws)
  case Nil
  then show ?case by auto
next
  case (Cons m ms)
  from Cons.prems(2) obtain w a1 ws1 where w: "transmit a m = Returns (w, a1)"
    and rest: "send_all transmit a1 ms = Returns (ws1, a')" and ws: "ws = w # ws1"
    by auto
  from deliver [OF Cons.prems(1) w] obtain b1
    where b1: "receive b w = Returns (Some m, b1)" "linked a1 b1" by blast
  from Cons.IH [OF b1(2) rest] b1(1) ws show ?case by auto
qed

end

text \<open>
  A link whose sender is known not to abort for a given number of frames delivers every stream
  of at most that length.
\<close>

locale live_link = framed_link +
  fixes budget :: "'a \<Rightarrow> nat"
  assumes transmits: "linked a b \<Longrightarrow> 0 < budget a \<Longrightarrow>
      \<exists>w a'. transmit a m = Returns (w, a') \<and> budget a \<le> Suc (budget a')"
begin

lemma stream_sent:
  "linked a b \<Longrightarrow> length ms \<le> budget a \<Longrightarrow> \<exists>ws a'. send_all transmit a ms = Returns (ws, a')"
proof (induction ms arbitrary: a b)
  case Nil
  then show ?case by auto
next
  case (Cons m ms)
  then have "0 < budget a" by auto
  from transmits [OF Cons.prems(1) this] obtain w a1
    where w: "transmit a m = Returns (w, a1)" and le: "budget a \<le> Suc (budget a1)" by blast
  from deliver [OF Cons.prems(1) w] obtain b1 where b1: "linked a1 b1" by blast
  from le Cons.prems(2) have "length ms \<le> budget a1" by simp
  from Cons.IH [OF b1 this] w show ?case by auto
qed

lemma stream_total:
  assumes "linked a b" and "length ms \<le> budget a"
  shows "\<exists>ws a' b'. send_all transmit a ms = Returns (ws, a') \<and>
           recv_all receive b ws = Returns (Some ms, b') \<and> linked a' b'"
proof -
  from stream_sent [OF assms] obtain ws a' where "send_all transmit a ms = Returns (ws, a')"
    by blast
  with stream_delivery [OF assms(1) this] show ?thesis by blast
qed

end

subsection \<open>Objects whose moves leave no secret behind\<close>

text \<open>
  \<open>move\<close> models a move construction: the new object and what is left of the source. \<open>assign\<close>
  models a move assignment between distinct objects. \<open>lawful\<close> is what the object relies on of
  the erasing primitive.
\<close>

primrec relocate :: "('s \<Rightarrow> 's \<times> 's) \<Rightarrow> nat \<Rightarrow> 's \<Rightarrow> 's \<times> 's list" where
  "relocate move 0 s = (s, [])"
| "relocate move (Suc n) s =
     (let (t, husk) = move s; (u, husks) = relocate move n t in (u, husk # husks))"

locale zeroising_move =
  fixes secrets :: "'s \<Rightarrow> bytes list"
    and move :: "'s \<Rightarrow> 's \<times> 's"
    and assign :: "'s \<Rightarrow> 's \<Rightarrow> 's \<times> 's"
    and destroy :: "'s \<Rightarrow> 's"
    and lawful :: bool
  assumes move_keeps: "fst (move s) = s"
    and move_wipes: "lawful \<Longrightarrow> b \<in> set (secrets (snd (move s))) \<Longrightarrow> all_zero b"
    and assign_moves: "assign t s = move s"
    and destroy_wipes: "lawful \<Longrightarrow> b \<in> set (secrets (destroy s)) \<Longrightarrow> all_zero b"
begin

lemma relocate_keeps: "fst (relocate move n s) = s"
proof (induction n arbitrary: s)
  case (Suc n)
  have "fst (relocate move (Suc n) s) = fst (relocate move n (fst (move s)))"
    by (simp add: case_prod_unfold Let_def)
  then show ?case by (simp add: Suc move_keeps)
qed simp

lemma relocate_wipes:
  "lawful \<Longrightarrow> husk \<in> set (snd (relocate move n s)) \<Longrightarrow> b \<in> set (secrets husk) \<Longrightarrow> all_zero b"
proof (induction n arbitrary: s)
  case (Suc n)
  have "snd (relocate move (Suc n) s) =
          snd (move s) # snd (relocate move n (fst (move s)))"
    by (simp add: case_prod_unfold Let_def)
  with Suc.prems(2) have "husk = snd (move s) \<or> husk \<in> set (snd (relocate move n s))"
    by (simp add: move_keeps)
  with Suc.IH Suc.prems move_wipes show ?case by blast
qed simp

lemma assign_keeps: "fst (assign t s) = s"
  by (simp add: assign_moves move_keeps)

lemma assign_wipes: "lawful \<Longrightarrow> b \<in> set (secrets (snd (assign t s))) \<Longrightarrow> all_zero b"
  by (simp add: assign_moves move_wipes)

end

subsection \<open>State machines with an invariant\<close>

text \<open>
  An object and the calls on it that return: what holds of a new object and is kept by every call
  holds after any sequence of calls.
\<close>

locale safe_machine =
  fixes created :: "'s \<Rightarrow> bool"
    and call :: "'s \<Rightarrow> 's \<Rightarrow> bool"
    and inv :: "'s \<Rightarrow> bool"
  assumes created_inv: "created s \<Longrightarrow> inv s"
    and call_inv: "inv s \<Longrightarrow> call s t \<Longrightarrow> inv t"
begin

lemma calls_inv: "call\<^sup>*\<^sup>* s t \<Longrightarrow> inv s \<Longrightarrow> inv t"
  by (induction rule: rtranclp_induct) (auto intro: call_inv)

lemma always: "created s \<Longrightarrow> call\<^sup>*\<^sup>* s t \<Longrightarrow> inv t"
  by (blast intro: calls_inv created_inv)

end

subsection \<open>Simulation\<close>

text \<open>
  A run of labelled steps, and the interface between a machine and its abstract specification: the
  abstraction of a state follows the labels of the machine as long as the invariant holds.
\<close>

inductive trace :: "('s \<Rightarrow> 'e \<Rightarrow> 's \<Rightarrow> bool) \<Rightarrow> 's \<Rightarrow> 'e list \<Rightarrow> 's \<Rightarrow> bool" for step where
  trace_Nil: "trace step s [] s"
| trace_Cons: "step s e t \<Longrightarrow> trace step t es u \<Longrightarrow> trace step s (e # es) u"

inductive_simps trace_simps [simp]: "trace step s [] t" "trace step s (e # es) t"

locale simulation =
  fixes step :: "'c \<Rightarrow> 'e \<Rightarrow> 'c \<Rightarrow> bool"
    and spec :: "'a \<Rightarrow> 'e \<Rightarrow> 'a \<Rightarrow> bool"
    and abs :: "'c \<Rightarrow> 'a"
    and inv :: "'c \<Rightarrow> bool"
  assumes step_inv: "inv s \<Longrightarrow> step s e t \<Longrightarrow> inv t"
    and simulates: "inv s \<Longrightarrow> step s e t \<Longrightarrow> spec (abs s) e (abs t)"
begin

lemma trace_simulates: "trace step s es t \<Longrightarrow> inv s \<Longrightarrow> trace spec (abs s) es (abs t) \<and> inv t"
  by (induction rule: trace.induct) (auto intro: step_inv simulates trace.intros)

end

subsection \<open>Functions of one message that also take it in two parts\<close>

text \<open>
  Digests and message authentication codes come in two overloads: over one range and over the
  concatenation of two ranges, without an intermediate buffer. \<open>lawful\<close> is what the implementation
  relies on of the hash primitive, \<open>k\<close> is the key (a unit value for an unkeyed digest).
\<close>

locale two_part_digest =
  fixes digest :: "'k \<Rightarrow> bytes \<Rightarrow> bytes"
    and digest2 :: "'k \<Rightarrow> bytes \<Rightarrow> bytes \<Rightarrow> bytes"
    and size :: nat
    and lawful :: bool
  assumes two_parts: "lawful \<Longrightarrow> digest2 k a b = digest k (a @ b)"
    and digest_size: "lawful \<Longrightarrow> length (digest k m) = size"
begin

lemma digest2_size: "lawful \<Longrightarrow> length (digest2 k a b) = size"
  by (simp add: two_parts digest_size)

lemma regroup: "lawful \<Longrightarrow> digest2 k (a @ b) c = digest2 k a (b @ c)"
  by (simp add: two_parts)

end

end
