(* ===== verification/Sodium.thy ===== *)
theory Sodium
  imports Prelude
begin

text \<open>
  The libsodium routines that the provider calls. The library is not part of the repository, so
  the routines are parameters: one record \<open>sodium\<close> of functions, passed to every operation that
  reaches libsodium. What the provider relies on is stated as separate predicates on that record,
  one per documented contract, which the theorems take as named hypotheses. The record
  \<open>toy_sodium\<close> is a small computable instance that satisfies all of them; it serves the witnesses
  and the concrete runs only.
\<close>

section \<open>The routines\<close>

text \<open>
  \<open>'h\<close> is the opaque \<^verbatim>\<open>crypto_generichash_blake2b_state\<close>. A routine that reports failure through
  its return code is an \<open>option\<close>; output lengths that the C interface returns through a pointer
  are the lengths of the result lists. The random bytes of \<^verbatim>\<open>randombytes_buf\<close> are an argument of
  the operation that draws them and are not part of the record. The field names shorten
  \<^verbatim>\<open>crypto_generichash_blake2b\<close> (one shot), its \<^verbatim>\<open>_init\<close>, \<^verbatim>\<open>_update\<close> and \<^verbatim>\<open>_final\<close> routines and
  \<^verbatim>\<open>crypto_aead_chacha20poly1305_ietf_encrypt\<close> and \<^verbatim>\<open>_decrypt\<close>.
\<close>

record 'h sodium =
  generichash :: "nat \<Rightarrow> bytes \<Rightarrow> bytes \<Rightarrow> bytes"
  generichash_init :: "bytes \<Rightarrow> nat \<Rightarrow> 'h"
  generichash_absorb :: "'h \<Rightarrow> bytes \<Rightarrow> 'h"
  generichash_final :: "'h \<Rightarrow> nat \<Rightarrow> bytes"
  crypto_aead_encrypt :: "bytes \<Rightarrow> bytes \<Rightarrow> bytes \<Rightarrow> bytes \<Rightarrow> bytes"
  crypto_aead_decrypt :: "bytes \<Rightarrow> bytes \<Rightarrow> bytes \<Rightarrow> bytes \<Rightarrow> bytes option"
  crypto_scalarmult :: "bytes \<Rightarrow> bytes \<Rightarrow> bytes option"
  crypto_scalarmult_base :: "bytes \<Rightarrow> bytes"
  crypto_sign_ed25519_sk_to_curve25519 :: "bytes \<Rightarrow> bytes option"
  crypto_sign_ed25519_pk_to_curve25519 :: "bytes \<Rightarrow> bytes option"
  sodium_memzero :: "bytes \<Rightarrow> bytes"
  sodium_is_zero :: "bytes \<Rightarrow> int"
  sodium_init :: int

section \<open>The documented contracts\<close>

text \<open>
  BLAKE2b with a 64-byte digest: the digest has the requested length, and the multi-part
  interface computes the digest of the concatenated parts.
\<close>

definition hash_ok :: "'h sodium \<Rightarrow> bool" where
  "hash_ok S \<longleftrightarrow>
     (\<forall>d. length (generichash S 64 d []) = 64) \<and>
     (\<forall>ds. generichash_final S
             (foldl (generichash_absorb S)
               (generichash_init S [] 64) ds) 64
           = generichash S 64 (concat ds) [])"

text \<open>
  ChaCha20-Poly1305 IETF under a 32-byte key and a 12-byte nonce; arguments in the order message,
  associated data, nonce, key. The tag adds 16 bytes, and decryption inverts encryption.
\<close>

definition aead_ok :: "'h sodium \<Rightarrow> bool" where
  "aead_ok S \<longleftrightarrow>
     (\<forall>m ad n k. length n = 12 \<longrightarrow> length k = 32 \<longrightarrow>
        length (crypto_aead_encrypt S m ad n k) = length m + 16 \<and>
        crypto_aead_decrypt S (crypto_aead_encrypt S m ad n k) ad n k = Some m)"

text \<open>
  Decryption recomputes the tag of the ciphertext body and compares it, and the cipher is an
  exclusive or with the key stream: the only ciphertext that decrypts to \<open>m\<close> is its encryption.
\<close>

definition aead_exact :: "'h sodium \<Rightarrow> bool" where
  "aead_exact S \<longleftrightarrow>
     (\<forall>c m ad n k. length n = 12 \<longrightarrow> length k = 32 \<longrightarrow>
        crypto_aead_decrypt S c ad n k = Some m \<longrightarrow> c = crypto_aead_encrypt S m ad n k)"

text \<open>
  X25519 on 32-byte scalars and points: both sides of a key agreement compute the same secret,
  and the agreement with a public key that was derived from a scalar does not fail.
\<close>

definition dh_ok :: "'h sodium \<Rightarrow> bool" where
  "dh_ok S \<longleftrightarrow>
     (\<forall>a. length a = 32 \<longrightarrow> length (crypto_scalarmult_base S a) = 32) \<and>
     (\<forall>a q z. length a = 32 \<longrightarrow> length q = 32 \<longrightarrow> crypto_scalarmult S a q = Some z \<longrightarrow>
        length z = 32) \<and>
     (\<forall>a b. length a = 32 \<longrightarrow> length b = 32 \<longrightarrow>
        crypto_scalarmult S a (crypto_scalarmult_base S b) =
          crypto_scalarmult S b (crypto_scalarmult_base S a) \<and>
        crypto_scalarmult S a (crypto_scalarmult_base S b) \<noteq> None)"

text \<open>The Ed25519 to X25519 conversions produce 32-byte keys.\<close>

definition conv_ok :: "'h sodium \<Rightarrow> bool" where
  "conv_ok S \<longleftrightarrow>
     (\<forall>k x. crypto_sign_ed25519_sk_to_curve25519 S k = Some x \<longrightarrow> length x = 32) \<and>
     (\<forall>k x. crypto_sign_ed25519_pk_to_curve25519 S k = Some x \<longrightarrow> length x = 32)"

text \<open>\<^verbatim>\<open>sodium_memzero\<close> overwrites a buffer with zeros; \<^verbatim>\<open>sodium_is_zero\<close> recognises such buffers.\<close>

definition erase_ok :: "'h sodium \<Rightarrow> bool" where
  "erase_ok S \<longleftrightarrow>
     (\<forall>b. sodium_memzero S b = zeros (length b)) \<and>
     (\<forall>b. sodium_is_zero S b = (if all_zero b then 1 else 0))"

lemma hash_length [len_simps]:
  "hash_ok S \<Longrightarrow> length (generichash S 64 d []) = 64"
  by (simp add: hash_ok_def)

lemma hash_multipart:
  "hash_ok S \<Longrightarrow> generichash_final S
     (foldl (generichash_absorb S) (generichash_init S [] 64) ds) 64
   = generichash S 64 (concat ds) []"
  by (simp add: hash_ok_def)

lemma aead_length [len_simps]:
  "aead_ok S \<Longrightarrow> length n = 12 \<Longrightarrow> length k = 32 \<Longrightarrow>
     length (crypto_aead_encrypt S m ad n k) = length m + 16"
  by (simp add: aead_ok_def)

lemma aead_roundtrip:
  "aead_ok S \<Longrightarrow> length n = 12 \<Longrightarrow> length k = 32 \<Longrightarrow>
     crypto_aead_decrypt S (crypto_aead_encrypt S m ad n k) ad n k = Some m"
  by (simp add: aead_ok_def)

lemma aead_exactD:
  "aead_exact S \<Longrightarrow> length n = 12 \<Longrightarrow> length k = 32 \<Longrightarrow>
     crypto_aead_decrypt S c ad n k = Some m \<Longrightarrow> c = crypto_aead_encrypt S m ad n k"
  by (simp add: aead_exact_def)

lemma dh_base_length [len_simps]:
  "dh_ok S \<Longrightarrow> length a = 32 \<Longrightarrow> length (crypto_scalarmult_base S a) = 32"
  unfolding dh_ok_def by blast

lemma dh_agree:
  "dh_ok S \<Longrightarrow> length a = 32 \<Longrightarrow> length b = 32 \<Longrightarrow>
     crypto_scalarmult S a (crypto_scalarmult_base S b) =
       crypto_scalarmult S b (crypto_scalarmult_base S a)"
  unfolding dh_ok_def by blast

lemma dh_succeeds:
  "dh_ok S \<Longrightarrow> length a = 32 \<Longrightarrow> length b = 32 \<Longrightarrow>
     \<exists>z. crypto_scalarmult S a (crypto_scalarmult_base S b) = Some z \<and> length z = 32"
proof -
  assume S: "dh_ok S" and a: "length a = 32" and b: "length b = 32"
  then obtain z where z: "crypto_scalarmult S a (crypto_scalarmult_base S b) = Some z"
    unfolding dh_ok_def by blast
  moreover have "length z = 32"
    using S a dh_base_length [OF S b] z unfolding dh_ok_def by blast
  ultimately show ?thesis by blast
qed

lemma memzero_zeros: "erase_ok S \<Longrightarrow> sodium_memzero S b = zeros (length b)"
  by (simp add: erase_ok_def)

lemma all_zero_memzero: "erase_ok S \<Longrightarrow> all_zero (sodium_memzero S b)"
  by (simp add: memzero_zeros)

lemma length_memzero [len_simps]: "erase_ok S \<Longrightarrow> length (sodium_memzero S b) = length b"
  by (simp add: memzero_zeros)

lemma is_zero_iff: "erase_ok S \<Longrightarrow> sodium_is_zero S b \<noteq> 0 \<longleftrightarrow> all_zero b"
  by (simp add: erase_ok_def)

section \<open>A computable instance\<close>

definition toy_hash :: "nat \<Rightarrow> bytes \<Rightarrow> bytes \<Rightarrow> bytes" where
  "toy_hash n d key = take n ((sum_list key + sum_list d) # zeros n)"

definition toy_tag :: "bytes \<Rightarrow> bytes \<Rightarrow> bytes \<Rightarrow> bytes" where
  "toy_tag ad n k = take 16 (sum_list k # sum_list ad # n @ zeros 16)"

definition toy_open :: "bytes \<Rightarrow> bytes \<Rightarrow> bytes \<Rightarrow> bytes \<Rightarrow> bytes option" where
  "toy_open c ad n k =
     (let l = length c - 16 in
      if 16 \<le> length c \<and> drop l c = toy_tag ad n k then Some (take l c) else None)"

definition toy_sodium :: "bytes sodium" where
  "toy_sodium = \<lparr>
     generichash = toy_hash,
     generichash_init = (\<lambda>key n. key),
     generichash_absorb = (\<lambda>st d. st @ d),
     generichash_final = (\<lambda>st n. toy_hash n st []),
     crypto_aead_encrypt = (\<lambda>m ad n k. m @ toy_tag ad n k),
     crypto_aead_decrypt = toy_open,
     crypto_scalarmult =
       (\<lambda>a q. if all_zero q then None else Some (9 # map2 (+) (tl a) (tl q))),
     crypto_scalarmult_base = (\<lambda>a. 9 # tl a),
     crypto_sign_ed25519_sk_to_curve25519 =
       (\<lambda>k. if length k = 64 then Some (take 32 k) else None),
     crypto_sign_ed25519_pk_to_curve25519 =
       (\<lambda>k. if length k = 32 \<and> \<not> all_zero k then Some (9 # tl k) else None),
     sodium_memzero = (\<lambda>b. zeros (length b)),
     sodium_is_zero = (\<lambda>b. if all_zero b then 1 else 0),
     sodium_init = 0\<rparr>"

lemma length_toy_hash [simp]: "length (toy_hash n d key) = n"
  by (simp add: toy_hash_def)

lemma length_toy_tag [simp]: "length (toy_tag ad n k) = 16"
  by (simp add: toy_tag_def)

lemma toy_parts: "foldl (@) xs ds = xs @ concat ds"
  by (induction ds arbitrary: xs) auto

lemma toy_hash_ok: "hash_ok toy_sodium"
  by (simp add: hash_ok_def toy_sodium_def toy_parts)

lemma toy_aead_ok: "aead_ok toy_sodium"
  by (simp add: aead_ok_def toy_sodium_def toy_open_def)

lemma toy_aead_exact: "aead_exact toy_sodium"
  by (auto simp: aead_exact_def toy_sodium_def toy_open_def Let_def split: if_splits)
    (metis append_take_drop_id)

lemma toy_add_commute: "map2 (+) xs ys = map2 (+) ys (xs :: bytes)"
  by (induction xs ys rule: list_induct2') (simp_all add: add.commute)

lemma toy_dh_ok: "dh_ok toy_sodium"
  by (auto simp: dh_ok_def toy_sodium_def all_zero_def intro: toy_add_commute split: if_splits)

lemma toy_conv_ok: "conv_ok toy_sodium"
  by (auto simp: conv_ok_def toy_sodium_def split: if_splits)

lemma toy_erase_ok: "erase_ok toy_sodium"
  by (simp add: erase_ok_def toy_sodium_def)

lemmas toy_ok [simp] =
  toy_hash_ok toy_aead_ok toy_aead_exact toy_dh_ok toy_conv_ok toy_erase_ok

end
