(* ===== verification/Hash.thy ===== *)
theory Hash
  imports Sodium
begin

text \<open>
  \<^verbatim>\<open>hash.hpp\<close> and \<^verbatim>\<open>hash.cpp\<close>: BLAKE2b with a 64-byte digest, over one range and over two ranges.
\<close>

abbreviation HASHLEN :: nat where
  "HASHLEN \<equiv> 64"

abbreviation BLOCKLEN :: nat where
  "BLOCKLEN \<equiv> 128"

definition blake2b :: "'h sodium \<Rightarrow> bytes \<Rightarrow> bytes" where
  "blake2b S data = generichash S HASHLEN data []"

definition blake2b_pair :: "'h sodium \<Rightarrow> bytes \<Rightarrow> bytes \<Rightarrow> bytes" where
  "blake2b_pair S a b =
     (let state = generichash_init S [] HASHLEN;
          state = generichash_absorb S state a;
          state = generichash_absorb S state b
      in generichash_final S state HASHLEN)"

interpretation hash: two_part_digest "\<lambda>_ :: unit. blake2b S" "\<lambda>_. blake2b_pair S" HASHLEN "hash_ok S"
  for S :: "'h sodium"
proof
  fix a b :: bytes
  assume "hash_ok S"
  from hash_multipart [OF this, of "[a, b]"]
  show "blake2b_pair S a b = blake2b S (a @ b)" for k :: unit
    by (simp add: blake2b_pair_def blake2b_def)
next
  fix m :: bytes
  assume "hash_ok S"
  then show "length (blake2b S m) = HASHLEN" for k :: unit
    by (simp add: blake2b_def len_simps)
qed

lemma blake2b_pair_append: "hash_ok S \<Longrightarrow> blake2b_pair S a b = blake2b S (a @ b)"
  by (rule hash.two_parts)

lemma length_blake2b [len_simps]: "hash_ok S \<Longrightarrow> length (blake2b S m) = HASHLEN"
  by (rule hash.digest_size)

lemma length_blake2b_pair [len_simps]: "hash_ok S \<Longrightarrow> length (blake2b_pair S a b) = HASHLEN"
  by (rule hash.digest2_size)

end
