(* ===== verification/Hmac.thy ===== *)
theory Hmac
  imports Hash
begin

text \<open>
  \<^verbatim>\<open>hmac.hpp\<close> and \<^verbatim>\<open>hmac.cpp\<close>: HMAC over BLAKE2b, with the reference construction of RFC 2104 it
  is compared with. The wipes of stack buffers at the end of each function
  (\<^verbatim>\<open>sodium_memzero\<close> of locals that are not returned) have no effect on the result and are left out.
\<close>

section \<open>The implementation\<close>

text \<open>Pad the key to a block, hashing it first if it is longer than one.\<close>

definition prepare_key :: "'h sodium \<Rightarrow> bytes \<Rightarrow> bytes" where
  "prepare_key S key =
     (let out = zeros BLOCKLEN in
      if length key \<le> BLOCKLEN then
        (if key \<noteq> [] then memcpy out key (length key) else out)
      else
        (let h = blake2b S key in memcpy out h HASHLEN))"

definition xor_const :: "bytes \<Rightarrow> byte \<Rightarrow> bytes" where
  "xor_const blk c = map (\<lambda>b. b XOR c) blk"

definition hmac_blake2b :: "'h sodium \<Rightarrow> bytes \<Rightarrow> bytes \<Rightarrow> bytes" where
  "hmac_blake2b S key message =
     (let k = prepare_key S key;
          ipad = xor_const k 0x36;
          opad = xor_const k 0x5c;
          inner = blake2b_pair S ipad message
      in blake2b_pair S opad inner)"

text \<open>The overload that authenticates the concatenation of two ranges.\<close>

definition hmac_blake2b_pair :: "'h sodium \<Rightarrow> bytes \<Rightarrow> bytes \<Rightarrow> bytes \<Rightarrow> bytes" where
  "hmac_blake2b_pair S key a b =
     (let k = prepare_key S key;
          ipad = xor_const k 0x36;
          opad = xor_const k 0x5c;
          st = generichash_init S [] HASHLEN;
          st = generichash_absorb S st ipad;
          st = generichash_absorb S st a;
          st = generichash_absorb S st b;
          inner = generichash_final S st HASHLEN
      in blake2b_pair S opad inner)"

section \<open>The reference construction\<close>

text \<open>
  RFC 2104 for a hash \<open>H\<close> with block length \<open>B\<close>: keys longer than a block are replaced by their
  hash, shorter keys are padded with zeros, and the code is
  \<open>H((K xor opad) || H((K xor ipad) || text))\<close>.
\<close>

definition rfc2104_key :: "(bytes \<Rightarrow> bytes) \<Rightarrow> nat \<Rightarrow> bytes \<Rightarrow> bytes" where
  "rfc2104_key H B key =
     (let k = (if B < length key then H key else key) in k @ zeros (B - length k))"

definition rfc2104 :: "(bytes \<Rightarrow> bytes) \<Rightarrow> nat \<Rightarrow> bytes \<Rightarrow> bytes \<Rightarrow> bytes" where
  "rfc2104 H B key text =
     (let k = rfc2104_key H B key
      in H (map2 (XOR) k (replicate B 0x5c) @ H (map2 (XOR) k (replicate B 0x36) @ text)))"

section \<open>Lemmas\<close>

lemma length_prepare_key [len_simps]: "hash_ok S \<Longrightarrow> length (prepare_key S key) = BLOCKLEN"
  by (simp add: prepare_key_def Let_def len_simps)

lemma prepare_key_rfc2104: "hash_ok S \<Longrightarrow> prepare_key S key = rfc2104_key (blake2b S) BLOCKLEN key"
  by (auto simp: prepare_key_def rfc2104_key_def memcpy_def Let_def len_simps)

lemma xor_const_map2:
  "length blk = n \<Longrightarrow> xor_const blk c = map2 (XOR) blk (replicate n c)"
  by (simp add: xor_const_def zip_replicate2)

lemma hmac_blake2b_rfc2104_aux:
  assumes "hash_ok S"
  shows "hmac_blake2b S key msg = rfc2104 (blake2b S) BLOCKLEN key msg"
  using assms xor_const_map2 [OF length_prepare_key, OF assms]
  by (simp add: hmac_blake2b_def rfc2104_def Let_def blake2b_pair_append
        flip: prepare_key_rfc2104)

lemma hmac_blake2b_pair_append_aux:
  assumes "hash_ok S"
  shows "hmac_blake2b_pair S key a b = hmac_blake2b S key (a @ b)"
  using hash_multipart [OF assms, of "[xor_const (prepare_key S key) 0x36, a, b]"] assms
  by (simp add: hmac_blake2b_pair_def hmac_blake2b_def Let_def blake2b_pair_append)
    (simp add: blake2b_def)

lemma length_hmac_blake2b [len_simps]: "hash_ok S \<Longrightarrow> length (hmac_blake2b S key m) = HASHLEN"
  by (simp add: hmac_blake2b_def Let_def len_simps)

interpretation hmac: two_part_digest "hmac_blake2b S" "hmac_blake2b_pair S" HASHLEN "hash_ok S"
  for S :: "'h sodium"
  by unfold_locales (simp_all add: hmac_blake2b_pair_append_aux len_simps)

section \<open>Properties\<close>

text \<open>
  C23. HMAC equivalence: for every key, of any length, and every message, \<open>hmac_blake2b\<close> computes
  the RFC 2104 construction over BLAKE2b with a 128-byte block.
\<close>

theorem hmac_is_rfc2104:
  "hash_ok S \<Longrightarrow> hmac_blake2b S key msg = rfc2104 (blake2b S) BLOCKLEN key msg"
  by (rule hmac_blake2b_rfc2104_aux)

theorem hmac_is_rfc2104_witness:
  "hash_ok toy_sodium \<and>
   hmac_blake2b toy_sodium [1, 2] [3] = rfc2104 (blake2b toy_sodium) BLOCKLEN [1, 2] [3]"
  using hmac_is_rfc2104 [OF toy_hash_ok, of "[1, 2]" "[3]"] by simp

end
