(* ===== verification/Hkdf.thy ===== *)
theory Hkdf
  imports Hmac
begin

text \<open>
  \<^verbatim>\<open>hkdf.hpp\<close> and \<^verbatim>\<open>hkdf.cpp\<close>: the two- and three-output key derivation of the Noise framework,
  and the recursive form of its definition they are compared with.
\<close>

record HkdfPair =
  pair_output1 :: bytes
  pair_output2 :: bytes

record HkdfTriple =
  triple_output1 :: bytes
  triple_output2 :: bytes
  triple_output3 :: bytes

definition hkdf2 :: "'h sodium \<Rightarrow> bytes \<Rightarrow> bytes \<Rightarrow> HkdfPair" where
  "hkdf2 S chaining_key input_key_material =
     (let temp_key = hmac_blake2b S chaining_key input_key_material;
          output1 = hmac_blake2b S temp_key [0x01];
          output2 = hmac_blake2b_pair S temp_key output1 [0x02]
      in \<lparr>pair_output1 = output1, pair_output2 = output2\<rparr>)"

definition hkdf3 :: "'h sodium \<Rightarrow> bytes \<Rightarrow> bytes \<Rightarrow> HkdfTriple" where
  "hkdf3 S chaining_key input_key_material =
     (let temp_key = hmac_blake2b S chaining_key input_key_material;
          output1 = hmac_blake2b S temp_key [0x01];
          output2 = hmac_blake2b_pair S temp_key output1 [0x02];
          output3 = hmac_blake2b_pair S temp_key output2 [0x03]
      in \<lparr>triple_output1 = output1, triple_output2 = output2, triple_output3 = output3\<rparr>)"

text \<open>
  The definition in the Noise specification: \<open>n\<close> outputs, each the code of the previous output
  followed by a counter byte, the first one of the counter byte alone.
\<close>

primrec hkdf_chain :: "(bytes \<Rightarrow> bytes) \<Rightarrow> nat \<Rightarrow> byte \<Rightarrow> bytes \<Rightarrow> bytes list" where
  "hkdf_chain mac 0 i prev = []"
| "hkdf_chain mac (Suc n) i prev =
     (let out = mac (prev @ [i]) in out # hkdf_chain mac n (i + 1) out)"

definition noise_hkdf :: "(bytes \<Rightarrow> bytes \<Rightarrow> bytes) \<Rightarrow> bytes \<Rightarrow> bytes \<Rightarrow> nat \<Rightarrow> bytes list" where
  "noise_hkdf mac ck ikm n = hkdf_chain (mac (mac ck ikm)) n 1 []"

section \<open>Lemmas\<close>

lemma length_hkdf2 [len_simps]:
  "hash_ok S \<Longrightarrow> length (pair_output1 (hkdf2 S ck ikm)) = HASHLEN"
  "hash_ok S \<Longrightarrow> length (pair_output2 (hkdf2 S ck ikm)) = HASHLEN"
  by (simp_all add: hkdf2_def Let_def len_simps hmac.two_parts)

lemma hkdf2_chain:
  "hash_ok S \<Longrightarrow>
     noise_hkdf (hmac_blake2b S) ck ikm 2 =
       [pair_output1 (hkdf2 S ck ikm), pair_output2 (hkdf2 S ck ikm)]"
  by (simp add: hkdf2_def noise_hkdf_def Let_def hmac.two_parts numeral_2_eq_2)

lemma hkdf3_chain:
  "hash_ok S \<Longrightarrow>
     noise_hkdf (hmac_blake2b S) ck ikm 3 =
       [triple_output1 (hkdf3 S ck ikm), triple_output2 (hkdf3 S ck ikm),
        triple_output3 (hkdf3 S ck ikm)]"
  by (simp add: hkdf3_def noise_hkdf_def Let_def hmac.two_parts numeral_3_eq_3)

lemma hkdf_chain_prefix:
  "m \<le> n \<Longrightarrow> take m (hkdf_chain mac n i prev) = hkdf_chain mac m i prev"
proof (induction m arbitrary: n i prev)
  case (Suc m)
  then obtain n' where "n = Suc n'" "m \<le> n'" by (cases n) auto
  with Suc.IH show ?case by (simp add: Let_def)
qed simp

section \<open>Properties\<close>

text \<open>
  C22. Key derivation: the outputs of \<open>hkdf2\<close> and \<open>hkdf3\<close> are the first two and the first three
  outputs of the Noise key derivation over RFC 2104 HMAC with BLAKE2b. Both routines therefore
  agree on their first two outputs.
\<close>

theorem hkdf_is_noise_hkdf:
  assumes "hash_ok S"
  shows "noise_hkdf (rfc2104 (blake2b S) BLOCKLEN) ck ikm 2 =
           [pair_output1 (hkdf2 S ck ikm), pair_output2 (hkdf2 S ck ikm)] \<and>
         noise_hkdf (rfc2104 (blake2b S) BLOCKLEN) ck ikm 3 =
           [triple_output1 (hkdf3 S ck ikm), triple_output2 (hkdf3 S ck ikm),
            triple_output3 (hkdf3 S ck ikm)]"
proof -
  have "rfc2104 (blake2b S) BLOCKLEN = hmac_blake2b S"
    using hmac_blake2b_rfc2104_aux [OF assms] by (intro ext) simp
  with hkdf2_chain [OF assms] hkdf3_chain [OF assms] show ?thesis by simp
qed

theorem hkdf_is_noise_hkdf_witness:
  "hash_ok toy_sodium \<and>
   noise_hkdf (rfc2104 (blake2b toy_sodium) BLOCKLEN) [7] [8] 2 =
     [pair_output1 (hkdf2 toy_sodium [7] [8]), pair_output2 (hkdf2 toy_sodium [7] [8])]"
  using hkdf_is_noise_hkdf [OF toy_hash_ok, of "[7]" "[8]"] by simp

end
