(* ===== verification/Cipher.thy ===== *)
theory Cipher
  imports Sodium
begin

text \<open>
  \<^verbatim>\<open>cipher.hpp\<close> and \<^verbatim>\<open>cipher.cpp\<close>: \<open>CipherState\<close>, the AEAD with the Noise nonce encoding. The state is
  the key, the 64-bit nonce counter and the flag that a key is present; the counter is a
  \<open>64 word\<close> because the program stops the process rather than let it wrap.
\<close>

section \<open>State and operations\<close>

abbreviation CIPHER_KEY_BYTES :: nat where
  "CIPHER_KEY_BYTES \<equiv> 32"

abbreviation AEAD_TAG_BYTES :: nat where
  "AEAD_TAG_BYTES \<equiv> 16"

abbreviation AEAD_NONCE_BYTES :: nat where
  "AEAD_NONCE_BYTES \<equiv> 12"

abbreviation UINT64_MAX :: "64 word" where
  "UINT64_MAX \<equiv> 0xFFFFFFFFFFFFFFFF"

record CipherState =
  cs_k :: bytes
  cs_n :: "64 word"
  cs_has_key :: bool

text \<open>The accessors of the class.\<close>

abbreviation cipher_has_key :: "CipherState \<Rightarrow> bool" where
  "cipher_has_key c \<equiv> cs_has_key c"

abbreviation cipher_nonce :: "CipherState \<Rightarrow> 64 word" where
  "cipher_nonce c \<equiv> cs_n c"

text \<open>The member initialisers of a default-constructed object.\<close>

definition CipherState_default :: CipherState where
  "CipherState_default = \<lparr>cs_k = zeros CIPHER_KEY_BYTES, cs_n = 0, cs_has_key = False\<rparr>"

text \<open>Four zero bytes, then the counter in little-endian order.\<close>

definition encode_nonce :: "64 word \<Rightarrow> bytes" where
  "encode_nonce counter =
     replicate 4 0 @ map (\<lambda>i. ucast (drop_bit (i * 8) counter AND 0xFF)) [0..<8]"

definition zeroize :: "'h sodium \<Rightarrow> CipherState \<Rightarrow> CipherState" where
  "zeroize S c = c\<lparr>cs_k := sodium_memzero S (cs_k c), cs_n := 0, cs_has_key := False\<rparr>"

text \<open>Move construction: the new object and what is left of the source.\<close>

definition cipher_move :: "'h sodium \<Rightarrow> CipherState \<Rightarrow> CipherState \<times> CipherState" where
  "cipher_move S other =
     (\<lparr>cs_k = cs_k other, cs_n = cs_n other, cs_has_key = cs_has_key other\<rparr>, zeroize S other)"

text \<open>
  Move assignment between distinct objects (the branch \<^verbatim>\<open>this != &other\<close>); a self-assignment leaves
  the object as it is.
\<close>

definition cipher_move_assign ::
  "'h sodium \<Rightarrow> CipherState \<Rightarrow> CipherState \<Rightarrow> CipherState \<times> CipherState" where
  "cipher_move_assign S this other =
     (let this = zeroize S this;
          this = this\<lparr>cs_k := cs_k other, cs_n := cs_n other, cs_has_key := cs_has_key other\<rparr>;
          other = zeroize S other
      in (this, other))"

definition cipher_destroy :: "'h sodium \<Rightarrow> CipherState \<Rightarrow> CipherState" where
  "cipher_destroy S c = zeroize S c"

definition initialize_key :: "bytes \<Rightarrow> CipherState \<Rightarrow> CipherState" where
  "initialize_key k c = c\<lparr>cs_k := k, cs_n := 0, cs_has_key := True\<rparr>"

definition reset_nonce_to_zero :: "CipherState \<Rightarrow> CipherState" where
  "reset_nonce_to_zero c = c\<lparr>cs_n := 0\<rparr>"

definition test_set_nonce :: "64 word \<Rightarrow> CipherState \<Rightarrow> CipherState" where
  "test_set_nonce n c = c\<lparr>cs_n := n\<rparr>"

definition encrypt_with_ad ::
  "'h sodium \<Rightarrow> bytes \<Rightarrow> bytes \<Rightarrow> CipherState \<Rightarrow> (bytes \<times> CipherState) outcome" where
  "encrypt_with_ad S ad plaintext c =
     (if \<not> cs_has_key c then Returns (plaintext, c)
      else if cs_n c = UINT64_MAX then Aborts EncryptNonceWrap
      else
        (let nonce = encode_nonce (cs_n c);
             out = crypto_aead_encrypt S plaintext ad nonce (cs_k c)
         in Returns (out, c\<lparr>cs_n := cs_n c + 1\<rparr>)))"

definition decrypt_with_ad ::
  "'h sodium \<Rightarrow> bytes \<Rightarrow> bytes \<Rightarrow> CipherState \<Rightarrow> (bytes option \<times> CipherState) outcome" where
  "decrypt_with_ad S ad ciphertext c =
     (if \<not> cs_has_key c then Returns (Some ciphertext, c)
      else if length ciphertext < AEAD_TAG_BYTES then Returns (None, c)
      else if cs_n c = UINT64_MAX then Aborts DecryptNonceWrap
      else
        (let nonce = encode_nonce (cs_n c) in
         case crypto_aead_decrypt S ciphertext ad nonce (cs_k c) of
           None \<Rightarrow> Returns (None, c)
         | Some out \<Rightarrow> Returns (Some out, c\<lparr>cs_n := cs_n c + 1\<rparr>)))"

text \<open>REKEY: the first 32 bytes of the encryption of 32 zeros under the reserved nonce.\<close>

definition rekey :: "'h sodium \<Rightarrow> CipherState \<Rightarrow> CipherState" where
  "rekey S c =
     (if \<not> cs_has_key c then c
      else
        (let nonce = encode_nonce UINT64_MAX;
             out = crypto_aead_encrypt S (zeros CIPHER_KEY_BYTES) [] nonce (cs_k c)
         in c\<lparr>cs_k := memcpy (cs_k c) out CIPHER_KEY_BYTES\<rparr>))"

section \<open>The nonce encoding\<close>

lemma length_encode_nonce [len_simps, simp]: "length (encode_nonce n) = AEAD_NONCE_BYTES"
  by (simp add: encode_nonce_def)

lemma encode_nonce_byte:
  "i < 8 \<Longrightarrow> encode_nonce n ! (4 + i) = ucast (drop_bit (i * 8) n AND 0xFF)"
  by (simp add: encode_nonce_def nth_append)

lemma encode_nonce_bit:
  assumes "j < 64"
  shows "bit (encode_nonce n ! (4 + j div 8)) (j mod 8) \<longleftrightarrow> bit n j"
proof -
  have byte: "encode_nonce n ! (4 + j div 8) = ucast (drop_bit (j div 8 * 8) n AND 0xFF)"
    using assms by (intro encode_nonce_byte) simp
  have mask: "(0xFF :: 64 word) = mask 8" by (simp add: mask_eq_exp_minus_1)
  show ?thesis
    unfolding byte mask
    using assms less_trans [OF mod_less_divisor [of 8 j], of 64] by (simp add: bit_simps)
qed

lemma encode_nonce_inj: "encode_nonce m = encode_nonce n \<Longrightarrow> m = n"
proof (rule bit_word_eqI)
  fix j assume eq: "encode_nonce m = encode_nonce n" and "j < LENGTH(64)"
  then have "j < 64" by simp
  from encode_nonce_bit [OF this, of m] encode_nonce_bit [OF this, of n] eq
  show "bit m j = bit n j" by simp
qed

section \<open>Invariant\<close>

definition wf_cipher :: "CipherState \<Rightarrow> bool" where
  "wf_cipher c \<longleftrightarrow> length (cs_k c) = CIPHER_KEY_BYTES"

lemma wf_default [wf_intros]: "wf_cipher CipherState_default"
  by (simp add: wf_cipher_def CipherState_default_def)

lemma wf_zeroize [wf_intros]: "erase_ok S \<Longrightarrow> wf_cipher c \<Longrightarrow> wf_cipher (zeroize S c)"
  by (simp add: wf_cipher_def zeroize_def len_simps)

lemma wf_initialize_key [wf_intros]: "length k = CIPHER_KEY_BYTES \<Longrightarrow> wf_cipher (initialize_key k c)"
  by (simp add: wf_cipher_def initialize_key_def)

lemma wf_reset_nonce [wf_intros]: "wf_cipher c \<Longrightarrow> wf_cipher (reset_nonce_to_zero c)"
  by (simp add: wf_cipher_def reset_nonce_to_zero_def)

lemma wf_encrypt:
  "wf_cipher c \<Longrightarrow> encrypt_with_ad S ad p c = Returns (out, c') \<Longrightarrow> wf_cipher c'"
  by (auto simp: wf_cipher_def encrypt_with_ad_def Let_def split: if_splits)

lemma wf_decrypt:
  "wf_cipher c \<Longrightarrow> decrypt_with_ad S ad w c = Returns (r, c') \<Longrightarrow> wf_cipher c'"
  by (auto simp: wf_cipher_def decrypt_with_ad_def Let_def split: if_splits option.splits)

lemma wf_rekey [wf_intros]: "aead_ok S \<Longrightarrow> wf_cipher c \<Longrightarrow> wf_cipher (rekey S c)"
  by (simp add: wf_cipher_def rekey_def Let_def len_simps)

section \<open>Behaviour of the operations\<close>

lemma encrypt_keyed:
  "cs_has_key c \<Longrightarrow> cs_n c \<noteq> UINT64_MAX \<Longrightarrow>
     encrypt_with_ad S ad p c =
       Returns (crypto_aead_encrypt S p ad (encode_nonce (cs_n c)) (cs_k c), c\<lparr>cs_n := cs_n c + 1\<rparr>)"
  by (simp add: encrypt_with_ad_def Let_def)

lemma encrypt_unkeyed [simp]: "\<not> cs_has_key c \<Longrightarrow> encrypt_with_ad S ad p c = Returns (p, c)"
  by (simp add: encrypt_with_ad_def)

lemma decrypt_unkeyed [simp]: "\<not> cs_has_key c \<Longrightarrow> decrypt_with_ad S ad w c = Returns (Some w, c)"
  by (simp add: decrypt_with_ad_def)

lemma encrypt_aborts_iff:
  "encrypt_with_ad S ad p c = Aborts e \<longleftrightarrow>
     cs_has_key c \<and> cs_n c = UINT64_MAX \<and> e = EncryptNonceWrap"
  by (auto simp: encrypt_with_ad_def Let_def)

lemma decrypt_aborts_iff:
  "decrypt_with_ad S ad w c = Aborts e \<longleftrightarrow>
     cs_has_key c \<and> AEAD_TAG_BYTES \<le> length w \<and> cs_n c = UINT64_MAX \<and> e = DecryptNonceWrap"
  by (auto simp: decrypt_with_ad_def Let_def split: option.splits)

lemma decrypt_failure_unchanged: "decrypt_with_ad S ad w c = Returns (None, c') \<Longrightarrow> c' = c"
  by (auto simp: decrypt_with_ad_def Let_def split: if_splits option.splits)

lemma length_encrypt:
  "aead_ok S \<Longrightarrow> wf_cipher c \<Longrightarrow> encrypt_with_ad S ad p c = Returns (w, c') \<Longrightarrow>
     length w = length p + (if cs_has_key c then AEAD_TAG_BYTES else 0)"
  by (auto simp: encrypt_with_ad_def wf_cipher_def Let_def len_simps split: if_splits)

text \<open>Both ends in the same state: what one encrypts the other decrypts, and they stay equal.\<close>

lemma decrypt_encrypt:
  assumes "aead_ok S" "wf_cipher c" "encrypt_with_ad S ad p c = Returns (w, c')"
  shows "decrypt_with_ad S ad w c = Returns (Some p, c')"
  using assms
  by (auto simp: encrypt_with_ad_def decrypt_with_ad_def wf_cipher_def Let_def len_simps
        aead_roundtrip split: if_splits)

text \<open>A ciphertext that is accepted is the one the peer produces in the same state.\<close>

lemma encrypt_decrypt:
  assumes "aead_exact S" "wf_cipher c" "decrypt_with_ad S ad w c = Returns (Some p, c')"
  shows "encrypt_with_ad S ad p c = Returns (w, c')"
  using assms
  by (auto simp: encrypt_with_ad_def decrypt_with_ad_def wf_cipher_def Let_def
        dest!: aead_exactD [rotated 3] split: if_splits option.splits)

section \<open>Interfaces\<close>

definition nonces_left :: "CipherState \<Rightarrow> nat" where
  "nonces_left c = unat UINT64_MAX - (if cs_has_key c then unat (cs_n c) else 0)"

lemma unat_Suc_nonce:
  assumes "n \<noteq> UINT64_MAX"
  shows "unat (n + 1) = Suc (unat n)"
proof -
  have "UINT64_MAX = - 1" by simp
  with assms have "1 + n \<noteq> 0" by (metis add.commute add_eq_0_iff)
  then show ?thesis using unatSuc [of n] by (simp add: add.commute)
qed

lemma nonces_left_pos: "0 < nonces_left c \<Longrightarrow> cs_has_key c \<Longrightarrow> cs_n c \<noteq> UINT64_MAX"
  by (auto simp: nonces_left_def)

lemma cipher_transmits:
  assumes "0 < nonces_left c"
  shows "\<exists>w c'. encrypt_with_ad S ad p c = Returns (w, c') \<and> nonces_left c \<le> Suc (nonces_left c')"
proof (cases "cs_has_key c")
  case True
  then have n: "cs_n c \<noteq> UINT64_MAX" using assms by (simp add: nonces_left_pos)
  from True encrypt_keyed [OF True n, of S ad p] show ?thesis
    by (simp add: nonces_left_def unat_Suc_nonce [OF n])
next
  case False
  then show ?thesis by simp
qed

text \<open>
  Two ciphers in the same state form an ordered link for as many frames as the counter has
  nonces left. The receiving side is the decryption with the same associated data.
\<close>

interpretation cs: live_link
  "\<lambda>c p. encrypt_with_ad S ad p c" "\<lambda>c w. decrypt_with_ad S ad w c"
  "\<lambda>a b. aead_ok S \<and> wf_cipher a \<and> a = b" nonces_left
  for S :: "'h sodium" and ad
proof
  fix a b m w a'
  assume "aead_ok S \<and> wf_cipher a \<and> a = b" and "encrypt_with_ad S ad m a = Returns (w, a')"
  then show "\<exists>b'. decrypt_with_ad S ad w b = Returns (Some m, b') \<and> aead_ok S \<and> wf_cipher a' \<and> a' = b'"
    using decrypt_encrypt wf_encrypt by blast
qed (rule cipher_transmits)

text \<open>The key buffer is the secret of a cipher state.\<close>

interpretation cs_obj: zeroising_move
  "\<lambda>c. [cs_k c]" "cipher_move S" "cipher_move_assign S" "cipher_destroy S" "erase_ok S"
  for S :: "'h sodium"
  by unfold_locales
    (auto simp: cipher_move_def cipher_move_assign_def cipher_destroy_def zeroize_def
       all_zero_memzero Let_def)

section \<open>Runs of encryptions\<close>

text \<open>
  The \<open>i\<close>-th of a run of encryptions, each with its own associated data, uses the nonce \<open>n + i\<close>
  under the unchanged key, and the run returns only if no counter value of it is the maximum.
\<close>

lemma encrypt_run:
  "cs_has_key c \<Longrightarrow>
   send_all (\<lambda>c m. encrypt_with_ad S (fst m) (snd m) c) c ms = Returns (ws, c') \<Longrightarrow>
     ws = map (\<lambda>i. crypto_aead_encrypt S (snd (ms ! i)) (fst (ms ! i))
                     (encode_nonce (cs_n c + of_nat i)) (cs_k c)) [0..<length ms] \<and>
     c' = c\<lparr>cs_n := cs_n c + of_nat (length ms)\<rparr> \<and>
     unat (cs_n c) + length ms \<le> unat UINT64_MAX"
proof (induction ms arbitrary: c ws)
  case Nil
  have "unat (cs_n c) \<le> unat UINT64_MAX"
    using unsigned_less [of "cs_n c", where 'a = nat] by simp
  with Nil show ?case by simp
next
  case (Cons m ms)
  let ?c = "c\<lparr>cs_n := cs_n c + 1\<rparr>"
  from Cons.prems have n: "cs_n c \<noteq> UINT64_MAX"
    by (auto simp: encrypt_with_ad_def Let_def split: if_splits)
  from Cons.prems obtain ws1
    where rest: "send_all (\<lambda>c m. encrypt_with_ad S (fst m) (snd m) c) ?c ms = Returns (ws1, c')"
      and ws: "ws = crypto_aead_encrypt S (snd m) (fst m) (encode_nonce (cs_n c)) (cs_k c) # ws1"
    by (auto simp: encrypt_keyed [OF Cons.prems(1) n])
  from Cons.IH [OF _ rest] Cons.prems(1) have IH:
    "ws1 = map (\<lambda>i. crypto_aead_encrypt S (snd (ms ! i)) (fst (ms ! i))
                     (encode_nonce (cs_n c + 1 + of_nat i)) (cs_k c)) [0..<length ms]"
    "c' = c\<lparr>cs_n := cs_n c + 1 + of_nat (length ms)\<rparr>"
    "unat (cs_n c + 1) + length ms \<le> unat UINT64_MAX" by simp_all
  from ws IH(1) have "ws = map (\<lambda>i. crypto_aead_encrypt S (snd ((m # ms) ! i)) (fst ((m # ms) ! i))
      (encode_nonce (cs_n c + of_nat i)) (cs_k c)) [0..<length (m # ms)]"
    by (simp add: map_upt_Suc add.assoc del: upt_Suc)
  with IH(2,3) unat_Suc_nonce [OF n] show ?case by (simp add: add.assoc)
qed

lemma unat_add_nonce:
  fixes n :: "64 word"
  assumes "unat n + i \<le> unat UINT64_MAX"
  shows "unat (n + of_nat i) = unat n + i"
proof -
  from assms have "unat n + i < 2 ^ 64" by simp
  then show ?thesis by (simp add: unat_word_ariths unat_of_nat mod_simps)
qed

lemma run_nonces_distinct:
  assumes "unat n + l \<le> unat UINT64_MAX"
  shows "distinct (map (\<lambda>i. encode_nonce (n + of_nat i)) [0..<l])"
    and "encode_nonce UINT64_MAX \<notin> set (map (\<lambda>i. encode_nonce (n + of_nat i)) [0..<l])"
proof -
  have val: "unat (n + of_nat i) = unat n + i" if "i < l" for i
    using that assms by (intro unat_add_nonce) simp
  show "distinct (map (\<lambda>i. encode_nonce (n + of_nat i)) [0..<l])"
    by (auto simp: distinct_map inj_on_def dest!: encode_nonce_inj dest: arg_cong [where f = unat])
      (metis add_left_cancel val)
  show "encode_nonce UINT64_MAX \<notin> set (map (\<lambda>i. encode_nonce (n + of_nat i)) [0..<l])"
  proof
    assume "encode_nonce UINT64_MAX \<in> set (map (\<lambda>i. encode_nonce (n + of_nat i)) [0..<l])"
    then obtain i where i: "i < l" "UINT64_MAX = n + of_nat i" by (auto dest: encode_nonce_inj)
    with val [OF i(1)] assms show False by simp
  qed
qed

section \<open>Properties\<close>

text \<open>
  C4. No nonce reuse: when a keyed cipher has returned from a run of encryptions, frame \<open>i\<close> of the
  run was sealed under the unchanged key with the encoding of \<open>n + i\<close>, these 12-byte nonces are
  pairwise different, and none of them is the nonce that \<open>rekey\<close> reserves for itself.
\<close>

theorem encryptions_never_reuse_a_nonce:
  assumes "cs_has_key c"
    and "send_all (\<lambda>c m. encrypt_with_ad S (fst m) (snd m) c) c ms = Returns (ws, c')"
  shows "let nonces = map (\<lambda>i. encode_nonce (cs_n c + of_nat i)) [0..<length ms] in
         ws = map (\<lambda>i. crypto_aead_encrypt S (snd (ms ! i)) (fst (ms ! i)) (nonces ! i) (cs_k c))
                [0..<length ms] \<and>
         distinct nonces \<and> encode_nonce UINT64_MAX \<notin> set nonces"
proof -
  note run = encrypt_run [OF assms]
  have "map (\<lambda>i. crypto_aead_encrypt S (snd (ms ! i)) (fst (ms ! i))
          (map (\<lambda>i. encode_nonce (cs_n c + of_nat i)) [0..<length ms] ! i) (cs_k c)) [0..<length ms] =
        map (\<lambda>i. crypto_aead_encrypt S (snd (ms ! i)) (fst (ms ! i))
          (encode_nonce (cs_n c + of_nat i)) (cs_k c)) [0..<length ms]"
    by (intro map_cong) simp_all
  with run run_nonces_distinct [of "cs_n c" "length ms"] show ?thesis by (simp add: Let_def)
qed

theorem encryptions_never_reuse_a_nonce_witness:
  "let c = initialize_key (replicate 32 7) CipherState_default;
       ms = [([], [1]), ([2], [3 :: byte])] in
   cs_has_key c \<and>
   (\<exists>ws c'. send_all (\<lambda>c m. encrypt_with_ad toy_sodium (fst m) (snd m) c) c ms = Returns (ws, c') \<and>
      ws = map (\<lambda>i. crypto_aead_encrypt toy_sodium (snd (ms ! i)) (fst (ms ! i))
             (map (\<lambda>i. encode_nonce (cs_n c + of_nat i)) [0..<length ms] ! i) (cs_k c)) [0..<length ms] \<and>
      distinct (map (\<lambda>i. encode_nonce (cs_n c + of_nat i)) [0..<length ms]))"
proof -
  let ?c = "initialize_key (replicate 32 7) CipherState_default"
  let ?ms = "[([], [1]), ([2], [3 :: byte])]"
  have key: "cs_has_key ?c" by (simp add: initialize_key_def)
  have "\<exists>r. send_all (\<lambda>c m. encrypt_with_ad toy_sodium (fst m) (snd m) c) ?c ?ms = Returns r"
    by (simp add: initialize_key_def encrypt_with_ad_def Let_def)
  then obtain ws c'
    where run: "send_all (\<lambda>c m. encrypt_with_ad toy_sodium (fst m) (snd m) c) ?c ?ms = Returns (ws, c')"
    by auto
  from encryptions_never_reuse_a_nonce [OF key run] key run show ?thesis
    unfolding Let_def by blast
qed

text \<open>
  C24. Ordered delivery: two ciphers in the same state deliver every stream of at most
  \<open>2^64 - 1 - n\<close> frames completely and unchanged, without aborting, and end in the same state.
\<close>

theorem cipher_stream_roundtrip:
  assumes "aead_ok S" and "wf_cipher c" and "length ps \<le> nonces_left c"
  shows "\<exists>ws c'. send_all (\<lambda>c p. encrypt_with_ad S ad p c) c ps = Returns (ws, c') \<and>
           recv_all (\<lambda>c w. decrypt_with_ad S ad w c) c ws = Returns (Some ps, c')"
  using cs.stream_total [of S c c ps ad] assms by blast

theorem cipher_stream_roundtrip_witness:
  "\<exists>ws c'. send_all (\<lambda>c p. encrypt_with_ad toy_sodium [5] p c)
             (initialize_key (replicate 32 7) CipherState_default) [[1], [2, 3]] = Returns (ws, c') \<and>
           recv_all (\<lambda>c w. decrypt_with_ad toy_sodium [5] w c)
             (initialize_key (replicate 32 7) CipherState_default) ws = Returns (Some [[1], [2, 3]], c')"
  by (rule cipher_stream_roundtrip)
    (simp_all add: wf_cipher_def initialize_key_def nonces_left_def)

text \<open>
  C5. Authenticity: with an exact AEAD, a well-formed cipher accepts a ciphertext and returns \<open>p\<close>
  precisely when encrypting \<open>p\<close> in the same state, with the same associated data, produces that
  ciphertext; the two operations then leave the same state. Any other ciphertext of at least
  tag length is rejected.
\<close>

theorem decrypt_accepts_exactly_encryptions:
  assumes "aead_ok S" and "aead_exact S" and "wf_cipher c"
  shows "decrypt_with_ad S ad w c = Returns (Some p, c') \<longleftrightarrow>
         encrypt_with_ad S ad p c = Returns (w, c')"
  using decrypt_encrypt [OF assms(1,3)] encrypt_decrypt [OF assms(2,3)] by blast

theorem decrypt_accepts_exactly_encryptions_witness:
  "\<forall>w c'. decrypt_with_ad toy_sodium [5] w (initialize_key (replicate 32 7) CipherState_default) =
            Returns (Some [1, 2], c') \<longleftrightarrow>
          encrypt_with_ad toy_sodium [5] [1, 2] (initialize_key (replicate 32 7) CipherState_default) =
            Returns (w, c')"
proof (intro allI)
  have "wf_cipher (initialize_key (replicate 32 7) CipherState_default)"
    by (rule wf_initialize_key) simp
  then show "decrypt_with_ad toy_sodium [5] w (initialize_key (replicate 32 7) CipherState_default) =
            Returns (Some [1, 2], c') \<longleftrightarrow>
          encrypt_with_ad toy_sodium [5] [1, 2] (initialize_key (replicate 32 7) CipherState_default) =
            Returns (w, c')" for w c'
    by (rule decrypt_accepts_exactly_encryptions [OF toy_aead_ok toy_aead_exact])
qed

text \<open>
  C37. Error behaviour: a rejected ciphertext leaves the whole cipher state unchanged, an accepted
  one advances the counter of a keyed cipher by exactly one and changes nothing else, and
  decryption aborts exactly for a keyed cipher with an exhausted counter and a ciphertext of at
  least tag length.
\<close>

theorem decrypt_state_effect:
  "decrypt_with_ad S ad w c \<in>
     {Returns (None, c)} \<union> range (\<lambda>p. Returns (Some p, c\<lparr>cs_n := cs_n c + (if cs_has_key c then 1 else 0)\<rparr>))
     \<union> (if cs_has_key c \<and> AEAD_TAG_BYTES \<le> length w \<and> cs_n c = UINT64_MAX
        then {Aborts DecryptNonceWrap} else {})
   \<and> (cs_has_key c \<and> AEAD_TAG_BYTES \<le> length w \<and> cs_n c = UINT64_MAX
       \<longleftrightarrow> decrypt_with_ad S ad w c = Aborts DecryptNonceWrap)"
  by (auto simp: decrypt_with_ad_def Let_def split: option.splits)

end
