(* ===== verification/Symmetric.thy ===== *)
theory Symmetric
  imports Hkdf Cipher
begin

text \<open>
  \<^verbatim>\<open>symmetric.hpp\<close> and \<^verbatim>\<open>symmetric.cpp\<close>: \<open>SymmetricState\<close>, the chaining key, the handshake hash and the
  handshake cipher. Wipes of stack buffers that are not returned are left out; the wipes of
  member buffers are modelled.
\<close>

section \<open>State and operations\<close>

record SymmetricState =
  ss_ck :: bytes
  ss_h :: bytes
  ss_cipher :: CipherState

abbreviation sym_handshake_hash :: "SymmetricState \<Rightarrow> bytes" where
  "sym_handshake_hash st \<equiv> ss_h st"

definition SymmetricState_default :: SymmetricState where
  "SymmetricState_default =
     \<lparr>ss_ck = zeros HASHLEN, ss_h = zeros HASHLEN, ss_cipher = CipherState_default\<rparr>"

text \<open>The body of the destructor, then the destructor of the cipher member.\<close>

definition sym_destroy :: "'h sodium \<Rightarrow> SymmetricState \<Rightarrow> SymmetricState" where
  "sym_destroy S st =
     st\<lparr>ss_ck := sodium_memzero S (ss_ck st), ss_h := sodium_memzero S (ss_h st),
        ss_cipher := cipher_destroy S (ss_cipher st)\<rparr>"

definition sym_move :: "'h sodium \<Rightarrow> SymmetricState \<Rightarrow> SymmetricState \<times> SymmetricState" where
  "sym_move S other =
     (let (cipher, husk) = cipher_move S (ss_cipher other) in
      (\<lparr>ss_ck = ss_ck other, ss_h = ss_h other, ss_cipher = cipher\<rparr>,
       other\<lparr>ss_ck := sodium_memzero S (ss_ck other), ss_h := sodium_memzero S (ss_h other),
             ss_cipher := husk\<rparr>))"

definition sym_move_assign ::
  "'h sodium \<Rightarrow> SymmetricState \<Rightarrow> SymmetricState \<Rightarrow> SymmetricState \<times> SymmetricState" where
  "sym_move_assign S this other =
     (let this = this\<lparr>ss_ck := sodium_memzero S (ss_ck this), ss_h := sodium_memzero S (ss_h this)\<rparr>;
          this = this\<lparr>ss_ck := ss_ck other, ss_h := ss_h other\<rparr>;
          (cipher, husk) = cipher_move_assign S (ss_cipher this) (ss_cipher other)
      in (this\<lparr>ss_cipher := cipher\<rparr>,
          other\<lparr>ss_ck := sodium_memzero S (ss_ck other), ss_h := sodium_memzero S (ss_h other),
                ss_cipher := husk\<rparr>))"

definition sym_chaining_key_zeroised :: "'h sodium \<Rightarrow> SymmetricState \<Rightarrow> bool" where
  "sym_chaining_key_zeroised S st \<longleftrightarrow> sodium_is_zero S (ss_ck st) \<noteq> 0"

definition sym_initialize :: "'h sodium \<Rightarrow> bytes \<Rightarrow> SymmetricState \<Rightarrow> SymmetricState" where
  "sym_initialize S protocol_name st =
     (let h = (if length protocol_name \<le> HASHLEN
               then memcpy (zeros HASHLEN) protocol_name (length protocol_name)
               else blake2b S protocol_name);
          st = st\<lparr>ss_h := h\<rparr>;
          st = st\<lparr>ss_ck := ss_h st\<rparr>
      in st\<lparr>ss_cipher := fst (cipher_move_assign S (ss_cipher st) CipherState_default)\<rparr>)"

definition mix_key :: "'h sodium \<Rightarrow> bytes \<Rightarrow> SymmetricState \<Rightarrow> SymmetricState" where
  "mix_key S input_key_material st =
     (let out = hkdf2 S (ss_ck st) input_key_material;
          st = st\<lparr>ss_ck := pair_output1 out\<rparr>;
          ck_truncated = memcpy (zeros CIPHER_KEY_BYTES) (pair_output2 out) CIPHER_KEY_BYTES
      in st\<lparr>ss_cipher := initialize_key ck_truncated (ss_cipher st)\<rparr>)"

definition mix_hash :: "'h sodium \<Rightarrow> bytes \<Rightarrow> SymmetricState \<Rightarrow> SymmetricState" where
  "mix_hash S data st = st\<lparr>ss_h := blake2b_pair S (ss_h st) data\<rparr>"

definition encrypt_and_hash ::
  "'h sodium \<Rightarrow> bytes \<Rightarrow> SymmetricState \<Rightarrow> (bytes \<times> SymmetricState) outcome" where
  "encrypt_and_hash S plaintext st =
     bind_outcome (encrypt_with_ad S (ss_h st) plaintext (ss_cipher st)) (\<lambda>(ciphertext, cipher).
       let st = st\<lparr>ss_cipher := cipher\<rparr> in Returns (ciphertext, mix_hash S ciphertext st))"

definition decrypt_and_hash ::
  "'h sodium \<Rightarrow> bytes \<Rightarrow> SymmetricState \<Rightarrow> (bytes option \<times> SymmetricState) outcome" where
  "decrypt_and_hash S ciphertext st =
     bind_outcome (decrypt_with_ad S (ss_h st) ciphertext (ss_cipher st)) (\<lambda>(plaintext, cipher).
       let st = st\<lparr>ss_cipher := cipher\<rparr> in
       case plaintext of
         None \<Rightarrow> Returns (None, st)
       | Some plaintext \<Rightarrow> Returns (Some plaintext, mix_hash S ciphertext st))"

record SplitPair =
  sp_first :: CipherState
  sp_second :: CipherState

text \<open>
  \<^verbatim>\<open>split\<close> guards its call of the key derivation with a handler that wipes the chaining key before
  it rethrows. The derivation is an argument here, so that both paths are modelled; \<open>'e\<close> is the
  exception. The program's own \<open>hkdf2\<close> does not throw.
\<close>

definition sym_split_with ::
  "(bytes \<Rightarrow> bytes \<Rightarrow> 'e + HkdfPair) \<Rightarrow> 'h sodium \<Rightarrow> SymmetricState \<Rightarrow>
     ('e + SplitPair) \<times> SymmetricState" where
  "sym_split_with kdf S st =
     (let wipe_chaining_key = (\<lambda>st. st\<lparr>ss_ck := sodium_memzero S (ss_ck st)\<rparr>) in
      case kdf (ss_ck st) [] of
        Inl e \<Rightarrow> (Inl e, wipe_chaining_key st)
      | Inr out \<Rightarrow>
          (let k1 = memcpy (zeros CIPHER_KEY_BYTES) (pair_output1 out) CIPHER_KEY_BYTES;
               k2 = memcpy (zeros CIPHER_KEY_BYTES) (pair_output2 out) CIPHER_KEY_BYTES;
               result = \<lparr>sp_first = initialize_key k1 CipherState_default,
                         sp_second = initialize_key k2 CipherState_default\<rparr>
           in (Inr result, wipe_chaining_key st)))"

definition sym_split :: "'h sodium \<Rightarrow> SymmetricState \<Rightarrow> SplitPair \<times> SymmetricState" where
  "sym_split S st =
     (let (r, st') = sym_split_with (\<lambda>ck ikm. Inr (hkdf2 S ck ikm) :: unit + HkdfPair) S st
      in (projr r, st'))"

section \<open>Invariant\<close>

definition wf_sym :: "SymmetricState \<Rightarrow> bool" where
  "wf_sym st \<longleftrightarrow> length (ss_ck st) = HASHLEN \<and> length (ss_h st) = HASHLEN \<and> wf_cipher (ss_cipher st)"

lemma wf_sym_default [wf_intros]: "wf_sym SymmetricState_default"
  by (simp add: wf_sym_def SymmetricState_default_def wf_default)

lemma cipher_assign_default [simp]: "fst (cipher_move_assign S c CipherState_default) = CipherState_default"
  by (simp add: cs_obj.assign_keeps)

lemma wf_sym_initialize [wf_intros]: "hash_ok S \<Longrightarrow> wf_sym (sym_initialize S name st)"
  by (simp add: wf_sym_def sym_initialize_def Let_def len_simps wf_default)

lemma wf_mix_key [wf_intros]: "hash_ok S \<Longrightarrow> wf_sym st \<Longrightarrow> wf_sym (mix_key S ikm st)"
  by (simp add: wf_sym_def mix_key_def Let_def len_simps wf_initialize_key)

lemma wf_mix_hash [wf_intros]: "hash_ok S \<Longrightarrow> wf_sym st \<Longrightarrow> wf_sym (mix_hash S d st)"
  by (simp add: wf_sym_def mix_hash_def len_simps)

lemma wf_sym_update:
  "wf_sym st \<Longrightarrow> wf_cipher c \<Longrightarrow> wf_sym (st\<lparr>ss_cipher := c\<rparr>)"
  by (simp add: wf_sym_def)

lemma wf_encrypt_and_hash:
  assumes "hash_ok S" "wf_sym st" "encrypt_and_hash S p st = Returns (w, st')"
  shows "wf_sym st'"
proof -
  from assms(3) obtain c where c: "encrypt_with_ad S (ss_h st) p (ss_cipher st) = Returns (w, c)"
    and st': "st' = mix_hash S w (st\<lparr>ss_cipher := c\<rparr>)"
    by (auto simp: encrypt_and_hash_def Let_def)
  from assms(2) have "wf_cipher (ss_cipher st)" by (simp add: wf_sym_def)
  with c have "wf_cipher c" by (rule wf_encrypt [rotated])
  with assms(1,2) show ?thesis by (simp add: st' wf_mix_hash wf_sym_update)
qed

lemma wf_decrypt_and_hash:
  assumes "hash_ok S" "wf_sym st" "decrypt_and_hash S w st = Returns (r, st')"
  shows "wf_sym st'"
proof -
  from assms(3) obtain c where c: "decrypt_with_ad S (ss_h st) w (ss_cipher st) = Returns (r, c)"
    and st': "st' = (if r = None then st\<lparr>ss_cipher := c\<rparr> else mix_hash S w (st\<lparr>ss_cipher := c\<rparr>))"
    by (auto simp: decrypt_and_hash_def Let_def split: option.splits)
  from assms(2) have "wf_cipher (ss_cipher st)" by (simp add: wf_sym_def)
  with c have "wf_cipher c" by (rule wf_decrypt [rotated])
  with assms(1,2) show ?thesis by (simp add: st' wf_mix_hash wf_sym_update)
qed

section \<open>Behaviour of the operations\<close>

lemma mix_key_cipher [simp]:
  "cs_has_key (ss_cipher (mix_key S ikm st))" "cs_n (ss_cipher (mix_key S ikm st)) = 0"
  "ss_h (mix_key S ikm st) = ss_h st"
  by (simp_all add: mix_key_def Let_def initialize_key_def)

lemma mix_hash_frame [simp]:
  "ss_ck (mix_hash S d st) = ss_ck st" "ss_cipher (mix_hash S d st) = ss_cipher st"
  by (simp_all add: mix_hash_def)

lemma decrypt_and_hash_failure: "decrypt_and_hash S w st = Returns (None, st') \<Longrightarrow> st' = st"
  by (auto simp: decrypt_and_hash_def Let_def dest: decrypt_failure_unchanged split: option.splits)

lemma decrypt_encrypt_and_hash:
  assumes "aead_ok S" "wf_sym st" "encrypt_and_hash S p st = Returns (w, st')"
  shows "decrypt_and_hash S w st = Returns (Some p, st')"
  using assms by (auto simp: encrypt_and_hash_def decrypt_and_hash_def Let_def wf_sym_def
      dest: decrypt_encrypt)

lemma encrypt_decrypt_and_hash:
  assumes "aead_exact S" "wf_sym st" "decrypt_and_hash S w st = Returns (Some p, st')"
  shows "encrypt_and_hash S p st = Returns (w, st')"
  using assms by (auto simp: encrypt_and_hash_def decrypt_and_hash_def Let_def wf_sym_def
      dest!: encrypt_decrypt split: option.splits)

lemma length_encrypt_and_hash:
  "aead_ok S \<Longrightarrow> wf_sym st \<Longrightarrow> encrypt_and_hash S p st = Returns (w, st') \<Longrightarrow>
     length w = length p + (if cs_has_key (ss_cipher st) then AEAD_TAG_BYTES else 0)"
  by (auto simp: encrypt_and_hash_def Let_def wf_sym_def dest: length_encrypt)

lemma sym_split_eq:
  "sym_split S st =
     (\<lparr>sp_first = initialize_key (take 32 (pair_output1 (hkdf2 S (ss_ck st) []) @ drop 32 (zeros 32)))
          CipherState_default,
       sp_second = initialize_key (take 32 (pair_output2 (hkdf2 S (ss_ck st) []) @ drop 32 (zeros 32)))
          CipherState_default\<rparr>,
      st\<lparr>ss_ck := sodium_memzero S (ss_ck st)\<rparr>)"
  by (simp add: sym_split_def sym_split_with_def Let_def memcpy_def)

section \<open>Interfaces\<close>

interpretation sym: live_link
  "\<lambda>st p. encrypt_and_hash S p st" "\<lambda>st w. decrypt_and_hash S w st"
  "\<lambda>a b. hash_ok S \<and> aead_ok S \<and> wf_sym a \<and> a = b" "\<lambda>st. nonces_left (ss_cipher st)"
  for S :: "'h sodium"
proof
  fix a b m w a'
  assume "hash_ok S \<and> aead_ok S \<and> wf_sym a \<and> a = b" and "encrypt_and_hash S m a = Returns (w, a')"
  then show "\<exists>b'. decrypt_and_hash S w b = Returns (Some m, b') \<and>
      hash_ok S \<and> aead_ok S \<and> wf_sym a' \<and> a' = b'"
    using decrypt_encrypt_and_hash wf_encrypt_and_hash by blast
next
  fix a b :: SymmetricState and m
  assume "0 < nonces_left (ss_cipher a)"
  from cipher_transmits [OF this, of S "ss_h a" m]
  show "\<exists>w a'. encrypt_and_hash S m a = Returns (w, a') \<and>
      nonces_left (ss_cipher a) \<le> Suc (nonces_left (ss_cipher a'))"
    by (auto simp: encrypt_and_hash_def Let_def)
qed

interpretation sym_obj: zeroising_move
  "\<lambda>st. [ss_ck st, ss_h st, cs_k (ss_cipher st)]"
  "sym_move S" "sym_move_assign S" "sym_destroy S" "erase_ok S"
  for S :: "'h sodium"
  by unfold_locales
    (auto simp: sym_move_def sym_move_assign_def sym_destroy_def all_zero_memzero Let_def
       cipher_move_def cipher_move_assign_def cipher_destroy_def zeroize_def)

end
