(* ===== verification/Handshake.thy ===== *)
theory Handshake
  imports Symmetric
begin

text \<open>
  \<^verbatim>\<open>handshake.hpp\<close> and \<^verbatim>\<open>handshake.cpp\<close>: \<open>HandshakeState\<close>, the message pattern state machine for the XX
  and the IK pattern. Each lambda of \<^verbatim>\<open>write_message\<close> and \<^verbatim>\<open>read_message\<close> is a command on the object and
  the captured local (the output buffer, the read offset); a message is a sequence of commands
  that stops at the first one that fails and keeps what the earlier ones did to the object.
\<close>

section \<open>Data\<close>

abbreviation DH_PUBLIC_KEY_BYTES :: nat where
  "DH_PUBLIC_KEY_BYTES \<equiv> 32"

abbreviation DH_PRIVATE_KEY_BYTES :: nat where
  "DH_PRIVATE_KEY_BYTES \<equiv> 32"

record Keypair =
  kp_pk :: bytes
  kp_sk :: bytes

datatype Pattern = XX | IK

record HandshakeState =
  hs_pattern :: Pattern
  hs_initiator :: bool
  hs_step :: int
  hs_steps_total :: int
  hs_symmetric :: SymmetricState
  hs_s_sk :: bytes
  hs_s_pk :: bytes
  hs_e_sk :: bytes
  hs_e_pk :: bytes
  hs_rs :: bytes
  hs_re :: bytes
  hs_rs_known :: bool

text \<open>The accessors of the class.\<close>

abbreviation hs_step_count :: "HandshakeState \<Rightarrow> int" where
  "hs_step_count hs \<equiv> hs_step hs"

abbreviation hs_is_initiator :: "HandshakeState \<Rightarrow> bool" where
  "hs_is_initiator hs \<equiv> hs_initiator hs"

abbreviation hs_handshake_hash :: "HandshakeState \<Rightarrow> bytes" where
  "hs_handshake_hash hs \<equiv> sym_handshake_hash (hs_symmetric hs)"

abbreviation peer_static_public_key :: "HandshakeState \<Rightarrow> bytes" where
  "peer_static_public_key hs \<equiv> hs_rs hs"

abbreviation peer_static_known :: "HandshakeState \<Rightarrow> bool" where
  "peer_static_known hs \<equiv> hs_rs_known hs"

section \<open>Helpers\<close>

definition ascii :: "string \<Rightarrow> bytes" where
  "ascii s = map of_char s"

definition kPrologue :: bytes where
  "kPrologue = ascii ''goodnet/v1/noise''"

definition dh :: "'h sodium \<Rightarrow> bytes \<Rightarrow> bytes \<Rightarrow> bytes option" where
  "dh S sk pk = crypto_scalarmult S sk pk"

text \<open>\<open>rnd\<close> is what \<^verbatim>\<open>randombytes_buf\<close> writes into the secret key.\<close>

definition generate_keypair :: "'h sodium \<Rightarrow> bytes \<Rightarrow> Keypair" where
  "generate_keypair S rnd = \<lparr>kp_pk = crypto_scalarmult_base S rnd, kp_sk = rnd\<rparr>"

fun protocol_name :: "Pattern \<Rightarrow> bytes" where
  "protocol_name XX = ascii ''Noise_XX_25519_ChaChaPoly_BLAKE2b''"
| "protocol_name IK = ascii ''Noise_IK_25519_ChaChaPoly_BLAKE2b''"

fun pattern_total_steps :: "Pattern \<Rightarrow> int" where
  "pattern_total_steps XX = 3"
| "pattern_total_steps IK = 2"

section \<open>Construction, moves, destruction\<close>

definition sym_of :: "(SymmetricState \<Rightarrow> SymmetricState) \<Rightarrow> HandshakeState \<Rightarrow> HandshakeState" where
  "sym_of f hs = hs\<lparr>hs_symmetric := f (hs_symmetric hs)\<rparr>"

text \<open>\<open>pre_known_rs\<close> is a nullable pointer.\<close>

definition HandshakeState_new ::
  "'h sodium \<Rightarrow> Pattern \<Rightarrow> bool \<Rightarrow> Keypair \<Rightarrow> bytes option \<Rightarrow> HandshakeState" where
  "HandshakeState_new S pattern initiator static_keys pre_known_rs =
     (let hs = \<lparr>hs_pattern = pattern, hs_initiator = initiator, hs_step = 0,
                hs_steps_total = pattern_total_steps pattern,
                hs_symmetric = SymmetricState_default,
                hs_s_sk = kp_sk static_keys, hs_s_pk = kp_pk static_keys,
                hs_e_sk = zeros DH_PRIVATE_KEY_BYTES, hs_e_pk = zeros DH_PUBLIC_KEY_BYTES,
                hs_rs = zeros DH_PUBLIC_KEY_BYTES, hs_re = zeros DH_PUBLIC_KEY_BYTES,
                hs_rs_known = False\<rparr>;
          hs = sym_of (sym_initialize S (protocol_name pattern)) hs;
          hs = sym_of (mix_hash S kPrologue) hs
      in if pattern = IK then
           (if initiator then
              (case pre_known_rs of
                 None \<Rightarrow> hs
               | Some rs \<Rightarrow>
                   let hs = hs\<lparr>hs_rs := rs, hs_rs_known := True\<rparr>
                   in sym_of (mix_hash S (hs_rs hs)) hs)
            else sym_of (mix_hash S (hs_s_pk hs)) hs)
         else hs)"

text \<open>\<^verbatim>\<open>wipe_dh_arrays\<close> on the six key arrays of an object.\<close>

definition wipe_dh_arrays :: "'h sodium \<Rightarrow> HandshakeState \<Rightarrow> HandshakeState" where
  "wipe_dh_arrays S hs =
     hs\<lparr>hs_s_sk := sodium_memzero S (hs_s_sk hs), hs_s_pk := sodium_memzero S (hs_s_pk hs),
        hs_e_sk := sodium_memzero S (hs_e_sk hs), hs_e_pk := sodium_memzero S (hs_e_pk hs),
        hs_rs := sodium_memzero S (hs_rs hs), hs_re := sodium_memzero S (hs_re hs)\<rparr>"

text \<open>The destructor wipes the same arrays; the symmetric state is destroyed after it.\<close>

definition hs_destroy :: "'h sodium \<Rightarrow> HandshakeState \<Rightarrow> HandshakeState" where
  "hs_destroy S hs = sym_of (sym_destroy S) (wipe_dh_arrays S hs)"

definition hs_move :: "'h sodium \<Rightarrow> HandshakeState \<Rightarrow> HandshakeState \<times> HandshakeState" where
  "hs_move S other =
     (let (sym, husk) = sym_move S (hs_symmetric other);
          this = \<lparr>hs_pattern = hs_pattern other, hs_initiator = hs_initiator other,
                  hs_step = hs_step other, hs_steps_total = hs_steps_total other,
                  hs_symmetric = sym,
                  hs_s_sk = hs_s_sk other, hs_s_pk = hs_s_pk other,
                  hs_e_sk = hs_e_sk other, hs_e_pk = hs_e_pk other,
                  hs_rs = hs_rs other, hs_re = hs_re other, hs_rs_known = hs_rs_known other\<rparr>
      in (this, wipe_dh_arrays S (other\<lparr>hs_symmetric := husk\<rparr>)))"

definition hs_move_assign ::
  "'h sodium \<Rightarrow> HandshakeState \<Rightarrow> HandshakeState \<Rightarrow> HandshakeState \<times> HandshakeState" where
  "hs_move_assign S this other =
     (let this = wipe_dh_arrays S this;
          this = this\<lparr>hs_pattern := hs_pattern other, hs_initiator := hs_initiator other,
                      hs_step := hs_step other, hs_steps_total := hs_steps_total other\<rparr>;
          (sym, husk) = sym_move_assign S (hs_symmetric this) (hs_symmetric other);
          this = this\<lparr>hs_symmetric := sym,
                      hs_s_sk := hs_s_sk other, hs_s_pk := hs_s_pk other,
                      hs_e_sk := hs_e_sk other, hs_e_pk := hs_e_pk other,
                      hs_rs := hs_rs other, hs_re := hs_re other,
                      hs_rs_known := hs_rs_known other\<rparr>
      in (this, wipe_dh_arrays S (other\<lparr>hs_symmetric := husk\<rparr>)))"

section \<open>Messages\<close>

definition is_complete :: "HandshakeState \<Rightarrow> bool" where
  "is_complete hs \<longleftrightarrow> hs_steps_total hs \<le> hs_step hs"

text \<open>The lambda \<^verbatim>\<open>mix_dh\<close>, the same in both functions; it reads its keys from the object.\<close>

definition mix_dh ::
  "'h sodium \<Rightarrow> (HandshakeState \<Rightarrow> bytes) \<Rightarrow> (HandshakeState \<Rightarrow> bytes) \<Rightarrow>
     (HandshakeState \<times> 'x) command" where
  "mix_dh S sk pk = (\<lambda>(hs, x).
     case dh S (sk hs) (pk hs) of
       None \<Rightarrow> Returns (False, (hs, x))
     | Some shared \<Rightarrow> Returns (True, (sym_of (mix_key S shared) hs, x)))"

definition write_e :: "'h sodium \<Rightarrow> bytes \<Rightarrow> (HandshakeState \<times> bytes) command" where
  "write_e S rnd = (\<lambda>(hs, out).
     let e = generate_keypair S rnd;
         hs = hs\<lparr>hs_e_pk := kp_pk e, hs_e_sk := kp_sk e\<rparr>;
         out = out @ hs_e_pk hs
     in Returns (True, (sym_of (mix_hash S (hs_e_pk hs)) hs, out)))"

definition encrypt_field ::
  "'h sodium \<Rightarrow> (HandshakeState \<Rightarrow> bytes) \<Rightarrow> (HandshakeState \<times> bytes) command" where
  "encrypt_field S plain = (\<lambda>(hs, out).
     bind_outcome (encrypt_and_hash S (plain hs) (hs_symmetric hs)) (\<lambda>(enc, sym).
       Returns (True, (hs\<lparr>hs_symmetric := sym\<rparr>, out @ enc))))"

definition encrypt_static :: "'h sodium \<Rightarrow> (HandshakeState \<times> bytes) command" where
  "encrypt_static S = encrypt_field S hs_s_pk"

definition encrypt_payload :: "'h sodium \<Rightarrow> bytes \<Rightarrow> (HandshakeState \<times> bytes) command" where
  "encrypt_payload S payload = encrypt_field S (\<lambda>_. payload)"

text \<open>The \<^verbatim>\<open>switch (step_)\<close> of \<^verbatim>\<open>write_message\<close>: the commands of a step, none for the default case.\<close>

definition write_switch ::
  "'h sodium \<Rightarrow> bytes \<Rightarrow> bytes \<Rightarrow> HandshakeState \<Rightarrow> (HandshakeState \<times> bytes) command list option" where
  "write_switch S rnd payload hs =
     (if hs_step hs = 0 then
        (if hs_pattern hs = IK then
           Some [write_e S rnd,
                 mix_dh S hs_e_sk hs_rs,
                 encrypt_static S,
                 mix_dh S hs_s_sk hs_rs,
                 encrypt_payload S payload]
         else
           Some [write_e S rnd,
                 encrypt_payload S payload])
      else if hs_step hs = 1 then
        (if hs_pattern hs = IK then
           Some [write_e S rnd,
                 mix_dh S hs_e_sk hs_re,
                 mix_dh S hs_s_sk hs_re,
                 encrypt_payload S payload]
         else
           Some [write_e S rnd,
                 mix_dh S hs_e_sk hs_re,
                 encrypt_static S,
                 mix_dh S hs_s_sk hs_re,
                 encrypt_payload S payload])
      else if hs_step hs = 2 then
        Some [encrypt_static S,
              mix_dh S hs_s_sk hs_re,
              encrypt_payload S payload]
      else None)"

definition write_message ::
  "'h sodium \<Rightarrow> bytes \<Rightarrow> bytes \<Rightarrow> HandshakeState \<Rightarrow> (bytes option \<times> HandshakeState) outcome" where
  "write_message S rnd payload hs =
     (if is_complete hs then Returns (None, hs)
      else
        (case write_switch S rnd payload hs of
           None \<Rightarrow> Returns (None, hs)
         | Some cmds \<Rightarrow>
             bind_outcome (run_seq cmds (hs, [])) (\<lambda>(ok, hs', out).
               if ok then Returns (Some out, hs'\<lparr>hs_step := hs_step hs' + 1\<rparr>)
               else Returns (None, hs'))))"

definition read_e :: "'h sodium \<Rightarrow> bytes \<Rightarrow> (HandshakeState \<times> nat) command" where
  "read_e S message = (\<lambda>(hs, offset).
     if length message < offset + DH_PUBLIC_KEY_BYTES then Returns (False, (hs, offset))
     else
       (let hs = hs\<lparr>hs_re := memcpy (hs_re hs) (drop offset message) DH_PUBLIC_KEY_BYTES\<rparr>;
            offset = offset + DH_PUBLIC_KEY_BYTES
        in Returns (True, (sym_of (mix_hash S (hs_re hs)) hs, offset))))"

definition read_encrypted_static :: "'h sodium \<Rightarrow> bytes \<Rightarrow> (HandshakeState \<times> nat) command" where
  "read_encrypted_static S message = (\<lambda>(hs, offset).
     let enc_len = DH_PUBLIC_KEY_BYTES + AEAD_TAG_BYTES in
     if length message < offset + enc_len then Returns (False, (hs, offset))
     else
       bind_outcome (decrypt_and_hash S (take enc_len (drop offset message)) (hs_symmetric hs))
         (\<lambda>(plain, sym).
           let hs = hs\<lparr>hs_symmetric := sym\<rparr> in
           case plain of
             None \<Rightarrow> Returns (False, (hs, offset))
           | Some plain \<Rightarrow>
               if length plain \<noteq> DH_PUBLIC_KEY_BYTES then Returns (False, (hs, offset))
               else
                 Returns (True, (hs\<lparr>hs_rs := memcpy (hs_rs hs) plain DH_PUBLIC_KEY_BYTES,
                                    hs_rs_known := True\<rparr>, offset + enc_len))))"

text \<open>The \<^verbatim>\<open>switch (step_)\<close> of \<^verbatim>\<open>read_message\<close>.\<close>

definition read_switch ::
  "'h sodium \<Rightarrow> bytes \<Rightarrow> HandshakeState \<Rightarrow> (HandshakeState \<times> nat) command list option" where
  "read_switch S message hs =
     (if hs_step hs = 0 then
        (if hs_pattern hs = IK then
           Some [read_e S message,
                 mix_dh S hs_s_sk hs_re,
                 read_encrypted_static S message,
                 mix_dh S hs_s_sk hs_rs]
         else
           Some [read_e S message])
      else if hs_step hs = 1 then
        (if hs_pattern hs = IK then
           Some [read_e S message,
                 mix_dh S hs_e_sk hs_re,
                 mix_dh S hs_e_sk hs_rs]
         else
           Some [read_e S message,
                 mix_dh S hs_e_sk hs_re,
                 read_encrypted_static S message,
                 mix_dh S hs_e_sk hs_rs])
      else if hs_step hs = 2 then
        Some [read_encrypted_static S message,
              mix_dh S hs_e_sk hs_rs]
      else None)"

definition read_message ::
  "'h sodium \<Rightarrow> bytes \<Rightarrow> HandshakeState \<Rightarrow> (bytes option \<times> HandshakeState) outcome" where
  "read_message S message hs =
     (if is_complete hs then Returns (None, hs)
      else
        (case read_switch S message hs of
           None \<Rightarrow> Returns (None, hs)
         | Some cmds \<Rightarrow>
             bind_outcome (run_seq cmds (hs, 0)) (\<lambda>(ok, hs', offset).
               if \<not> ok then Returns (None, hs')
               else
                 bind_outcome (decrypt_and_hash S (drop offset message) (hs_symmetric hs'))
                   (\<lambda>(plain, sym).
                     let hs' = hs'\<lparr>hs_symmetric := sym\<rparr> in
                     case plain of
                       None \<Rightarrow> Returns (None, hs')
                     | Some plain \<Rightarrow>
                         Returns (Some plain, hs'\<lparr>hs_step := hs_step hs' + 1\<rparr>)))))"

section \<open>Split\<close>

record TransportPair =
  tp_send :: CipherState
  tp_recv :: CipherState

definition eager_wipe :: "'h sodium \<Rightarrow> HandshakeState \<Rightarrow> HandshakeState" where
  "eager_wipe S hs =
     hs\<lparr>hs_s_sk := sodium_memzero S (hs_s_sk hs), hs_e_sk := sodium_memzero S (hs_e_sk hs),
        hs_e_pk := sodium_memzero S (hs_e_pk hs), hs_re := sodium_memzero S (hs_re hs)\<rparr>"

text \<open>As for the symmetric state, the key derivation that may throw is an argument.\<close>

definition hs_split_with ::
  "(bytes \<Rightarrow> bytes \<Rightarrow> 'e + HkdfPair) \<Rightarrow> 'h sodium \<Rightarrow> HandshakeState \<Rightarrow>
     ('e + TransportPair) \<times> HandshakeState" where
  "hs_split_with kdf S hs =
     (let (r, sym) = sym_split_with kdf S (hs_symmetric hs);
          hs = hs\<lparr>hs_symmetric := sym\<rparr>
      in case r of
           Inl e \<Rightarrow> (Inl e, eager_wipe S hs)
         | Inr pair \<Rightarrow>
             (let first = fst (cipher_move_assign S CipherState_default (sp_first pair));
                  second = fst (cipher_move_assign S CipherState_default (sp_second pair));
                  tp = (if hs_initiator hs then \<lparr>tp_send = first, tp_recv = second\<rparr>
                        else \<lparr>tp_send = second, tp_recv = first\<rparr>)
              in (Inr tp, eager_wipe S hs)))"

definition hs_split :: "'h sodium \<Rightarrow> HandshakeState \<Rightarrow> TransportPair \<times> HandshakeState" where
  "hs_split S hs =
     (let (r, hs') = hs_split_with (\<lambda>ck ikm. Inr (hkdf2 S ck ikm) :: unit + HkdfPair) S hs
      in (projr r, hs'))"

definition static_secret_zeroised_for_test :: "'h sodium \<Rightarrow> HandshakeState \<Rightarrow> bool" where
  "static_secret_zeroised_for_test S hs \<longleftrightarrow> sodium_is_zero S (hs_s_sk hs) \<noteq> 0"

definition chaining_key_zeroised_for_test :: "'h sodium \<Rightarrow> HandshakeState \<Rightarrow> bool" where
  "chaining_key_zeroised_for_test S hs \<longleftrightarrow> sym_chaining_key_zeroised S (hs_symmetric hs)"

end
