(* ===== verification/Handshake_Inv.thy ===== *)
theory Handshake_Inv
  imports Handshake
begin

text \<open>
  Invariants of \<open>HandshakeState\<close>: buffer sizes and the step counter, what a message leaves
  untouched, completion, and what moves and \<open>split\<close> erase.
\<close>

section \<open>The invariant\<close>

definition wf_keys :: "HandshakeState \<Rightarrow> bool" where
  "wf_keys hs \<longleftrightarrow>
     length (hs_s_sk hs) = 32 \<and> length (hs_s_pk hs) = 32 \<and>
     length (hs_e_sk hs) = 32 \<and> length (hs_e_pk hs) = 32 \<and>
     length (hs_rs hs) = 32 \<and> length (hs_re hs) = 32 \<and> wf_sym (hs_symmetric hs)"

definition wf_hs :: "HandshakeState \<Rightarrow> bool" where
  "wf_hs hs \<longleftrightarrow> wf_keys hs \<and> hs_steps_total hs = pattern_total_steps (hs_pattern hs) \<and>
     0 \<le> hs_step hs \<and> hs_step hs \<le> hs_steps_total hs"

text \<open>What no command of a message changes.\<close>

definition same_session :: "HandshakeState \<Rightarrow> HandshakeState \<Rightarrow> bool" where
  "same_session a b \<longleftrightarrow>
     hs_pattern b = hs_pattern a \<and> hs_initiator b = hs_initiator a \<and> hs_step b = hs_step a \<and>
     hs_steps_total b = hs_steps_total a \<and> hs_s_sk b = hs_s_sk a \<and> hs_s_pk b = hs_s_pk a"

lemma same_session_refl [simp]: "same_session a a"
  by (simp add: same_session_def)

lemma same_session_trans: "same_session a b \<Longrightarrow> same_session b c \<Longrightarrow> same_session a c"
  by (simp add: same_session_def)

lemma sym_of_sel [simp]:
  "hs_symmetric (sym_of f hs) = f (hs_symmetric hs)"
  "hs_pattern (sym_of f hs) = hs_pattern hs" "hs_initiator (sym_of f hs) = hs_initiator hs"
  "hs_step (sym_of f hs) = hs_step hs" "hs_steps_total (sym_of f hs) = hs_steps_total hs"
  "hs_s_sk (sym_of f hs) = hs_s_sk hs" "hs_s_pk (sym_of f hs) = hs_s_pk hs"
  "hs_e_sk (sym_of f hs) = hs_e_sk hs" "hs_e_pk (sym_of f hs) = hs_e_pk hs"
  "hs_rs (sym_of f hs) = hs_rs hs" "hs_re (sym_of f hs) = hs_re hs"
  "hs_rs_known (sym_of f hs) = hs_rs_known hs"
  by (simp_all add: sym_of_def)

lemma wf_keys_new [wf_intros]:
  "hash_ok S \<Longrightarrow> length (kp_sk kp) = 32 \<Longrightarrow> length (kp_pk kp) = 32 \<Longrightarrow>
     (\<And>rs. pre = Some rs \<Longrightarrow> length rs = 32) \<Longrightarrow>
     wf_hs (HandshakeState_new S pattern initiator kp pre)"
  by (cases pattern; cases pre)
    (simp_all add: wf_hs_def wf_keys_def HandshakeState_new_def Let_def wf_intros)

section \<open>Commands\<close>

definition write_cmds :: "'h sodium \<Rightarrow> bytes \<Rightarrow> bytes \<Rightarrow> (HandshakeState \<times> bytes) command set" where
  "write_cmds S rnd payload =
     {write_e S rnd, encrypt_static S, encrypt_payload S payload} \<union>
     range (\<lambda>(sk, pk). mix_dh S sk pk)"

definition read_cmds :: "'h sodium \<Rightarrow> bytes \<Rightarrow> (HandshakeState \<times> nat) command set" where
  "read_cmds S message =
     {read_e S message, read_encrypted_static S message} \<union>
     range (\<lambda>(sk, pk). mix_dh S sk pk)"

text \<open>Every message body is a sequence of such commands.\<close>

lemma write_switch_cmds:
  "write_switch S rnd payload hs = Some cmds \<Longrightarrow> set cmds \<subseteq> write_cmds S rnd payload"
  by (auto simp: write_switch_def write_cmds_def image_iff split: if_splits)

lemma read_switch_cmds:
  "read_switch S message hs = Some cmds \<Longrightarrow> set cmds \<subseteq> read_cmds S message"
  by (auto simp: read_switch_def read_cmds_def image_iff split: if_splits)

lemma write_message_cases:
  assumes "write_message S rnd payload hs = Returns (r, hs')"
  obtains (refused) "r = None" "hs' = hs"
  | (failed) cmds out where "write_switch S rnd payload hs = Some cmds" "\<not> is_complete hs"
      "run_seq cmds (hs, []) = Returns (False, hs', out)" "r = None"
  | (written) cmds out hs1 where "write_switch S rnd payload hs = Some cmds" "\<not> is_complete hs"
      "run_seq cmds (hs, []) = Returns (True, hs1, out)" "r = Some out"
      "hs' = hs1\<lparr>hs_step := hs_step hs1 + 1\<rparr>"
  using assms by (auto simp: write_message_def split: if_splits option.splits)

lemma read_message_cases:
  assumes "read_message S message hs = Returns (r, hs')"
  obtains (refused) "r = None" "hs' = hs"
  | (failed) cmds off where "read_switch S message hs = Some cmds" "\<not> is_complete hs"
      "run_seq cmds (hs, 0) = Returns (False, hs', off)" "r = None"
  | (rejected) cmds off hs1 ss where "read_switch S message hs = Some cmds" "\<not> is_complete hs"
      "run_seq cmds (hs, 0) = Returns (True, hs1, off)" "r = None"
      "decrypt_and_hash S (drop off message) (hs_symmetric hs1) = Returns (None, ss)"
      "hs' = hs1\<lparr>hs_symmetric := ss\<rparr>"
  | (accepted) cmds off hs1 ss plain where "read_switch S message hs = Some cmds" "\<not> is_complete hs"
      "run_seq cmds (hs, 0) = Returns (True, hs1, off)" "r = Some plain"
      "decrypt_and_hash S (drop off message) (hs_symmetric hs1) = Returns (Some plain, ss)"
      "hs' = hs1\<lparr>hs_symmetric := ss, hs_step := hs_step hs1 + 1\<rparr>"
  using assms
  by (auto simp: read_message_def Let_def split: if_splits option.splits)

text \<open>Each command keeps the buffer sizes and the session fields.\<close>

lemma wf_keys_sym_of: "wf_keys hs \<Longrightarrow> wf_sym (f (hs_symmetric hs)) \<Longrightarrow> wf_keys (sym_of f hs)"
  by (simp add: wf_keys_def)

lemma mix_dh_keeps:
  assumes "hash_ok S" "wf_keys hs" "mix_dh S sk pk (hs, x) = Returns (ok, hs', x')"
  shows "wf_keys hs' \<and> same_session hs hs'"
  using assms
  by (auto simp: mix_dh_def same_session_def wf_keys_def wf_intros split: option.splits)

lemma encrypt_field_keeps:
  assumes "hash_ok S" "wf_keys hs" "encrypt_field S plain (hs, out) = Returns (ok, hs', out')"
  shows "wf_keys hs' \<and> same_session hs hs'"
  using assms wf_encrypt_and_hash [OF assms(1)]
  by (auto simp: encrypt_field_def same_session_def wf_keys_def)

lemma write_e_keeps:
  assumes "hash_ok S" "dh_ok S" "length rnd = 32" "wf_keys hs"
    "write_e S rnd (hs, out) = Returns (ok, hs', out')"
  shows "wf_keys hs' \<and> same_session hs hs'"
  using assms
  by (auto simp: write_e_def generate_keypair_def Let_def same_session_def wf_keys_def wf_intros len_simps)

lemma read_e_keeps:
  assumes "hash_ok S" "wf_keys hs" "read_e S m (hs, off) = Returns (ok, hs', off')"
  shows "wf_keys hs' \<and> same_session hs hs'"
  using assms
  by (auto simp: read_e_def Let_def same_session_def wf_keys_def wf_intros len_simps split: if_splits)

lemma read_encrypted_static_keeps:
  assumes "hash_ok S" "wf_keys hs" "read_encrypted_static S m (hs, off) = Returns (ok, hs', off')"
  shows "wf_keys hs' \<and> same_session hs hs'"
  using assms wf_decrypt_and_hash [OF assms(1), of "hs_symmetric hs"]
  by (auto simp: read_encrypted_static_def Let_def same_session_def wf_keys_def len_simps
        split: if_splits option.splits)

lemma write_cmd_keeps:
  assumes S: "hash_ok S" "dh_ok S" "length rnd = 32" and c: "c \<in> write_cmds S rnd payload"
    and wf: "wf_keys hs" and run: "c (hs, out) = Returns (ok, hs', out')"
  shows "wf_keys hs' \<and> same_session hs hs'"
proof -
  consider "c = write_e S rnd" | plain where "c = encrypt_field S plain" | sk pk where "c = mix_dh S sk pk"
    using c by (auto simp: write_cmds_def encrypt_static_def encrypt_payload_def)
  then show ?thesis
  proof cases
    case 1 with S wf run show ?thesis by (simp add: write_e_keeps)
  next
    case 2 with S wf run show ?thesis by (simp add: encrypt_field_keeps)
  next
    case 3 with S wf run show ?thesis by (simp add: mix_dh_keeps)
  qed
qed

lemma read_cmd_keeps:
  assumes S: "hash_ok S" and c: "c \<in> read_cmds S message"
    and wf: "wf_keys hs" and run: "c (hs, off) = Returns (ok, hs', off')"
  shows "wf_keys hs' \<and> same_session hs hs'"
proof -
  consider "c = read_e S message" | "c = read_encrypted_static S message" | sk pk where "c = mix_dh S sk pk"
    using c by (auto simp: read_cmds_def)
  then show ?thesis
  proof cases
    case 1 with S wf run show ?thesis by (simp add: read_e_keeps)
  next
    case 2 with S wf run show ?thesis by (simp add: read_encrypted_static_keeps)
  next
    case 3 with S wf run show ?thesis by (simp add: mix_dh_keeps)
  qed
qed

lemma seq_keeps:
  assumes c: "\<And>c a x ok b y. c \<in> set cmds \<Longrightarrow> wf_keys a \<Longrightarrow> c (a, x) = Returns (ok, b, y) \<Longrightarrow>
      wf_keys b \<and> same_session a b"
    and wf: "wf_keys hs" and run: "run_seq cmds (hs, x) = Returns (ok, hs', x')"
  shows "wf_keys hs' \<and> same_session hs hs'"
proof -
  let ?P = "\<lambda>f. wf_keys (fst f) \<and> same_session hs (fst f)"
  have "?P (hs', x')"
  proof (rule run_seq_preserves [OF _ _ run])
    fix d f ok f'
    assume d: "d \<in> set cmds" and P: "?P f" and run: "d f = Returns (ok, f')"
    from run have "d (fst f, snd f) = Returns (ok, fst f', snd f')" by simp
    from c [OF d _ this] P show "?P f'" by (blast intro: same_session_trans)
  qed (use wf in simp)
  then show ?thesis by simp
qed

lemma write_seq_keeps:
  assumes "hash_ok S" "dh_ok S" "length rnd = 32" "set cmds \<subseteq> write_cmds S rnd payload"
    and "wf_keys hs" "run_seq cmds (hs, out) = Returns (ok, hs', out')"
  shows "wf_keys hs' \<and> same_session hs hs'"
  by (rule seq_keeps [OF _ assms(5,6)]) (use assms(4) write_cmd_keeps [OF assms(1-3)] in blast)

lemma read_seq_keeps:
  assumes "hash_ok S" "set cmds \<subseteq> read_cmds S message"
    and "wf_keys hs" "run_seq cmds (hs, off) = Returns (ok, hs', off')"
  shows "wf_keys hs' \<and> same_session hs hs'"
  by (rule seq_keeps [OF _ assms(3,4)]) (use assms(2) read_cmd_keeps [OF assms(1)] in blast)

section \<open>Messages\<close>

lemma wf_hs_keeps:
  "wf_hs hs \<Longrightarrow> wf_keys hs' \<Longrightarrow> same_session hs hs' \<Longrightarrow> wf_hs hs'"
  by (simp add: wf_hs_def same_session_def)

lemma wf_hs_step:
  "wf_hs hs \<Longrightarrow> \<not> is_complete hs \<Longrightarrow> wf_keys hs' \<Longrightarrow> same_session hs hs' \<Longrightarrow>
     wf_hs (hs'\<lparr>hs_step := hs_step hs' + 1\<rparr>)"
  by (simp add: wf_hs_def wf_keys_def same_session_def is_complete_def)

lemma wf_write_message:
  assumes S: "hash_ok S" "dh_ok S" "length rnd = 32" and wf: "wf_hs hs"
    and w: "write_message S rnd payload hs = Returns (r, hs')"
  shows "wf_hs hs' \<and> hs_step hs' = hs_step hs + (if r = None then 0 else 1)"
  using w
proof (cases rule: write_message_cases)
  case refused
  with wf show ?thesis by simp
next
  case (failed cmds out)
  have "wf_keys hs' \<and> same_session hs hs'"
    using write_seq_keeps [OF S write_switch_cmds [OF failed(1)] _ failed(3)] wf by (simp add: wf_hs_def)
  with wf failed show ?thesis by (auto intro: wf_hs_keeps simp: same_session_def)
next
  case (written cmds out hs1)
  have "wf_keys hs1 \<and> same_session hs hs1"
    using write_seq_keeps [OF S write_switch_cmds [OF written(1)] _ written(3)] wf by (simp add: wf_hs_def)
  with wf_hs_step [OF wf written(2), of hs1] written(4,5) show ?thesis
    by (simp add: same_session_def)
qed

lemma same_session_symmetric: "same_session hs hs' \<Longrightarrow> same_session hs (hs'\<lparr>hs_symmetric := ss\<rparr>)"
  by (simp add: same_session_def)

lemma wf_read_message:
  assumes S: "hash_ok S" and wf: "wf_hs hs"
    and w: "read_message S message hs = Returns (r, hs')"
  shows "wf_hs hs' \<and> hs_step hs' = hs_step hs + (if r = None then 0 else 1)"
proof -
  have keys: "wf_keys hs" using wf by (simp add: wf_hs_def)
  have body: "wf_keys hs1 \<and> same_session hs hs1"
    if "read_switch S message hs = Some cmds" "run_seq cmds (hs, 0) = Returns (ok, hs1, off)"
    for cmds ok hs1 off
    using read_seq_keeps [OF S read_switch_cmds [OF that(1)] keys that(2)] .
  have tail: "wf_keys (hs1\<lparr>hs_symmetric := ss\<rparr>)"
    if "wf_keys hs1" "decrypt_and_hash S d (hs_symmetric hs1) = Returns (p, ss)" for hs1 d p ss
    using that wf_decrypt_and_hash [OF S _ that(2)] by (simp add: wf_keys_def)
  from w show ?thesis
  proof (cases rule: read_message_cases)
    case refused
    with wf show ?thesis by simp
  next
    case (failed cmds off)
    with body [OF failed(1,3)] wf show ?thesis by (auto intro: wf_hs_keeps simp: same_session_def)
  next
    case (rejected cmds off hs1 ss)
    from body [OF rejected(1,3)] tail [OF _ rejected(5)] rejected(4,6) wf show ?thesis
      by (auto intro!: wf_hs_keeps [OF wf] simp: same_session_def)
  next
    case (accepted cmds off hs1 ss plain)
    from body [OF accepted(1,3)] tail [OF _ accepted(5)]
    have "wf_keys (hs1\<lparr>hs_symmetric := ss\<rparr>)" "same_session hs (hs1\<lparr>hs_symmetric := ss\<rparr>)"
      by (auto simp: same_session_symmetric)
    from wf_hs_step [OF wf accepted(2) this] this(2) accepted(4,6) show ?thesis
      by (simp add: same_session_def)
  qed
qed

lemma write_complete: "is_complete hs \<Longrightarrow> write_message S rnd p hs = Returns (None, hs)"
  by (simp add: write_message_def)

lemma read_complete: "is_complete hs \<Longrightarrow> read_message S m hs = Returns (None, hs)"
  by (simp add: read_message_def)

section \<open>Moves, destruction and split\<close>

text \<open>All buffers of a handshake state that hold key material, of the symmetric state too.\<close>

definition hs_buffers :: "HandshakeState \<Rightarrow> bytes list" where
  "hs_buffers hs =
     [hs_s_sk hs, hs_s_pk hs, hs_e_sk hs, hs_e_pk hs, hs_rs hs, hs_re hs,
      ss_ck (hs_symmetric hs), ss_h (hs_symmetric hs), cs_k (ss_cipher (hs_symmetric hs))]"

lemma wipe_dh_arrays_zero:
  "erase_ok S \<Longrightarrow>
     list_all all_zero [ss_ck (hs_symmetric h), ss_h (hs_symmetric h), cs_k (ss_cipher (hs_symmetric h))] \<Longrightarrow>
     list_all all_zero (hs_buffers (wipe_dh_arrays S h))"
  by (simp add: hs_buffers_def wipe_dh_arrays_def all_zero_memzero)

lemma hs_move_eq:
  "hs_move S s = (s, wipe_dh_arrays S (s\<lparr>hs_symmetric := snd (sym_move S (hs_symmetric s))\<rparr>))"
  using sym_obj.move_keeps [of S "hs_symmetric s"] by (simp add: hs_move_def case_prod_unfold Let_def)

lemma hs_destroy_eq: "hs_destroy S s = wipe_dh_arrays S (sym_of (sym_destroy S) s)"
  by (simp add: hs_destroy_def wipe_dh_arrays_def sym_of_def)

interpretation hs_obj: zeroising_move
  hs_buffers "hs_move S" "hs_move_assign S" "hs_destroy S" "erase_ok S"
  for S :: "'h sodium"
proof
  fix s t :: HandshakeState and b
  show "fst (hs_move S s) = s" by (simp add: hs_move_eq)
  show "hs_move_assign S t s = hs_move S s"
    by (simp add: hs_move_eq hs_move_assign_def case_prod_unfold Let_def wipe_dh_arrays_def
        sym_obj.assign_moves sym_obj.move_keeps)
  show "all_zero b" if "erase_ok S" "b \<in> set (hs_buffers (snd (hs_move S s)))"
    using wipe_dh_arrays_zero [OF that(1), of "s\<lparr>hs_symmetric := snd (sym_move S (hs_symmetric s))\<rparr>"]
      sym_obj.move_wipes [OF that(1), of _ "hs_symmetric s"] that(2)
    by (simp add: hs_move_eq list_all_iff)
  show "all_zero b" if "erase_ok S" "b \<in> set (hs_buffers (hs_destroy S s))"
    using wipe_dh_arrays_zero [OF that(1), of "sym_of (sym_destroy S) s"]
      sym_obj.destroy_wipes [OF that(1), of _ "hs_symmetric s"] that(2)
    by (simp add: hs_destroy_eq list_all_iff)
qed

lemma hs_split_eq:
  "hs_split S hs =
     (let pair = fst (sym_split S (hs_symmetric hs)) in
      if hs_initiator hs then \<lparr>tp_send = sp_first pair, tp_recv = sp_second pair\<rparr>
      else \<lparr>tp_send = sp_second pair, tp_recv = sp_first pair\<rparr>,
      eager_wipe S (hs\<lparr>hs_symmetric := snd (sym_split S (hs_symmetric hs))\<rparr>))"
  by (simp add: hs_split_def hs_split_with_def sym_split_def sym_split_with_def Let_def
      cs_obj.assign_keeps)

text \<open>The buffers that \<open>split\<close> erases, on its normal path and when the key derivation throws.\<close>

definition split_secrets :: "HandshakeState \<Rightarrow> bytes list" where
  "split_secrets hs = [hs_s_sk hs, hs_e_sk hs, hs_e_pk hs, hs_re hs, ss_ck (hs_symmetric hs)]"

lemma hs_split_with_wipes:
  "erase_ok S \<Longrightarrow> list_all all_zero (split_secrets (snd (hs_split_with kdf S hs)))"
  by (auto simp: hs_split_with_def sym_split_with_def split_secrets_def eager_wipe_def Let_def
      all_zero_memzero split: sum.splits)

lemma hs_split_with_frame:
  "ss_h (hs_symmetric (snd (hs_split_with kdf S hs))) = ss_h (hs_symmetric hs) \<and>
   hs_rs (snd (hs_split_with kdf S hs)) = hs_rs hs \<and>
   hs_step (snd (hs_split_with kdf S hs)) = hs_step hs \<and>
   hs_steps_total (snd (hs_split_with kdf S hs)) = hs_steps_total hs \<and>
   ss_cipher (hs_symmetric (snd (hs_split_with kdf S hs))) = ss_cipher (hs_symmetric hs)"
  by (auto simp: hs_split_with_def sym_split_with_def eager_wipe_def Let_def split: sum.splits)

lemma hs_split_with_result:
  "(\<exists>e. kdf (ss_ck (hs_symmetric hs)) [] = Inl e \<and> fst (hs_split_with kdf S hs) = Inl e) \<or>
   (\<exists>tp. fst (hs_split_with kdf S hs) = Inr tp)"
  by (auto simp: hs_split_with_def sym_split_with_def Let_def split: sum.splits)

section \<open>Sequences of calls\<close>

text \<open>
  Any caller may call \<open>write_message\<close> and \<open>read_message\<close> in any order and with any arguments, after
  failures too; \<open>hs_call\<close> is one such call that returns.
\<close>

inductive hs_call :: "'h sodium \<Rightarrow> HandshakeState \<Rightarrow> HandshakeState \<Rightarrow> bool" for S where
  hs_write: "length rnd = 32 \<Longrightarrow> write_message S rnd payload hs = Returns (r, hs') \<Longrightarrow> hs_call S hs hs'"
| hs_read: "read_message S message hs = Returns (r, hs') \<Longrightarrow> hs_call S hs hs'"

definition same_identity :: "HandshakeState \<Rightarrow> HandshakeState \<Rightarrow> bool" where
  "same_identity a b \<longleftrightarrow> hs_pattern b = hs_pattern a \<and> hs_initiator b = hs_initiator a \<and>
     hs_s_sk b = hs_s_sk a \<and> hs_s_pk b = hs_s_pk a"

lemma same_identity_session: "same_session a b \<Longrightarrow> same_identity a (b\<lparr>hs_step := n\<rparr>)"
  "same_session a b \<Longrightarrow> same_identity a (b\<lparr>hs_symmetric := ss, hs_step := n\<rparr>)"
  "same_session a b \<Longrightarrow> same_identity a (b\<lparr>hs_symmetric := ss\<rparr>)"
  "same_session a b \<Longrightarrow> same_identity a b"
  by (simp_all add: same_session_def same_identity_def)

lemma write_message_identity:
  assumes S: "hash_ok S" "dh_ok S" "length rnd = 32" and wf: "wf_hs hs"
    and w: "write_message S rnd payload hs = Returns (r, hs')"
  shows "same_identity hs hs'"
proof -
  have body: "same_session hs hs1"
    if "write_switch S rnd payload hs = Some cmds" "run_seq cmds (hs, []) = Returns (ok, hs1, out)"
    for cmds ok hs1 out
    using write_seq_keeps [OF S write_switch_cmds [OF that(1)] _ that(2)] wf by (simp add: wf_hs_def)
  from w show ?thesis
    by (cases rule: write_message_cases) (auto dest!: body intro: same_identity_session)
qed

lemma read_message_identity:
  assumes S: "hash_ok S" and wf: "wf_hs hs"
    and w: "read_message S message hs = Returns (r, hs')"
  shows "same_identity hs hs'"
proof -
  have body: "same_session hs hs1"
    if "read_switch S message hs = Some cmds" "run_seq cmds (hs, 0) = Returns (ok, hs1, off)"
    for cmds ok hs1 off
    using read_seq_keeps [OF S read_switch_cmds [OF that(1)] _ that(2)] wf by (simp add: wf_hs_def)
  from w show ?thesis
    by (cases rule: read_message_cases) (auto dest!: body intro: same_identity_session)
qed

lemma hs_call_keeps:
  assumes "hash_ok S" "dh_ok S" "wf_hs hs" "hs_call S hs hs'"
  shows "wf_hs hs' \<and> same_identity hs hs' \<and> hs_step hs \<le> hs_step hs' \<and> hs_step hs' \<le> hs_step hs + 1 \<and>
    (is_complete hs \<longrightarrow> hs' = hs)"
  using assms(4)
proof (cases rule: hs_call.cases)
  case (hs_write rnd payload r)
  with wf_write_message [OF assms(1,2) _ assms(3)] write_message_identity [OF assms(1,2) _ assms(3)]
  show ?thesis by (auto simp: write_complete split: if_splits)
next
  case (hs_read message r)
  with wf_read_message [OF assms(1,3)] read_message_identity [OF assms(1,3)]
  show ?thesis by (auto simp: read_complete split: if_splits)
qed

text \<open>Relative to the state \<open>hs\<close> in which a sequence of calls starts.\<close>

interpretation hs_machine: safe_machine
  "\<lambda>s. s = hs \<and> hash_ok S \<and> dh_ok S \<and> wf_hs s" "hs_call S"
  "\<lambda>s. hash_ok S \<and> dh_ok S \<and> wf_hs s \<and> same_identity hs s \<and> hs_step hs \<le> hs_step s \<and>
       (is_complete hs \<longrightarrow> s = hs)"
  for S :: "'h sodium" and hs
proof
  fix s t
  assume inv: "hash_ok S \<and> dh_ok S \<and> wf_hs s \<and> same_identity hs s \<and> hs_step hs \<le> hs_step s \<and>
       (is_complete hs \<longrightarrow> s = hs)" and call: "hs_call S s t"
  with hs_call_keeps [of S s t] show "hash_ok S \<and> dh_ok S \<and> wf_hs t \<and> same_identity hs t \<and>
      hs_step hs \<le> hs_step t \<and> (is_complete hs \<longrightarrow> t = hs)"
    by (auto simp: same_identity_def)
qed (simp add: same_identity_def)

section \<open>Properties\<close>

text \<open>
  C14. Handshake invariant: after any sequence of calls of \<open>write_message\<close> and \<open>read_message\<close> on a
  well-formed handshake, in any order, with any messages, and including calls that fail, every key
  buffer has its size, the step counter lies between its old value and the number of messages of
  the pattern, and pattern, role and static key pair are the original ones. A handshake that is
  complete is changed by no call at all.
\<close>

theorem handshake_invariant:
  assumes "hash_ok S" and "dh_ok S" and "wf_hs hs" and "(hs_call S)\<^sup>*\<^sup>* hs hs'"
  shows "wf_hs hs' \<and> hs_step hs \<le> hs_step hs' \<and> hs_step hs' \<le> pattern_total_steps (hs_pattern hs) \<and>
    hs_pattern hs' = hs_pattern hs \<and> hs_initiator hs' = hs_initiator hs \<and>
    hs_s_sk hs' = hs_s_sk hs \<and> hs_s_pk hs' = hs_s_pk hs \<and>
    (is_complete hs \<longrightarrow> hs' = hs)"
  using hs_machine.always [of hs hs S hs'] assms by (auto simp: same_identity_def wf_hs_def)

theorem handshake_invariant_witness:
  "let hs = HandshakeState_new toy_sodium XX False (generate_keypair toy_sodium (replicate 32 3)) None;
       hs' = snd (case read_message toy_sodium [1, 2] hs of Returns x \<Rightarrow> x) in
   (hs_call toy_sodium)\<^sup>*\<^sup>* hs hs' \<and> wf_hs hs' \<and> hs_s_sk hs' = replicate 32 3"
proof -
  let ?hs = "HandshakeState_new toy_sodium XX False (generate_keypair toy_sodium (replicate 32 3)) None"
  have wf: "wf_hs ?hs"
    by (rule wf_keys_new) (simp_all add: generate_keypair_def toy_sodium_def hash_ok_def toy_parts)
  have keys: "hs_s_sk ?hs = replicate 32 3"
    by (simp add: HandshakeState_new_def Let_def sym_of_def generate_keypair_def)
  have step: "hs_step ?hs = 0" "\<not> is_complete ?hs" "hs_pattern ?hs = XX"
    by (simp_all add: HandshakeState_new_def Let_def sym_of_def is_complete_def)
  have "read_message toy_sodium [1, 2] ?hs = Returns (None, ?hs)"
    by (simp add: read_message_def read_switch_def step read_e_def)
  then have run: "(hs_call toy_sodium)\<^sup>*\<^sup>* ?hs ?hs" and
    eq: "snd (case read_message toy_sodium [1, 2] ?hs of Returns x \<Rightarrow> x) = ?hs"
    by (auto intro: hs_read)
  show ?thesis
    unfolding Let_def eq using handshake_invariant [OF toy_hash_ok toy_dh_ok wf run] run keys by blast
qed

text \<open>
  C15. Split leaves no key material that could rebuild the session: whatever the key derivation
  does, also when it throws, the local static secret, the ephemeral pair, the peer's ephemeral key
  and the chaining key are all zero afterwards, and both test probes report it. What the caller
  reads after the split, the handshake hash and the peer's static key, is kept; the key of the
  handshake cipher is not erased by it.
\<close>

theorem split_erases_handshake_secrets:
  assumes "erase_ok S"
  shows "let (r, hs') = hs_split_with kdf S hs in
    list_all all_zero [hs_s_sk hs', hs_e_sk hs', hs_e_pk hs', hs_re hs', ss_ck (hs_symmetric hs')] \<and>
    static_secret_zeroised_for_test S hs' \<and> chaining_key_zeroised_for_test S hs' \<and>
    ss_h (hs_symmetric hs') = ss_h (hs_symmetric hs) \<and> hs_rs hs' = hs_rs hs \<and>
    ss_cipher (hs_symmetric hs') = ss_cipher (hs_symmetric hs)"
  using hs_split_with_wipes [OF assms, of kdf hs] hs_split_with_frame [of kdf S hs]
  by (simp add: case_prod_unfold split_secrets_def static_secret_zeroised_for_test_def
      chaining_key_zeroised_for_test_def sym_chaining_key_zeroised_def is_zero_iff [OF assms])

theorem split_erases_handshake_secrets_witness:
  "let hs = HandshakeState_new toy_sodium XX True (generate_keypair toy_sodium (replicate 32 3)) None;
       (r, hs') = hs_split_with (\<lambda>_ _. Inl ''bad_alloc'') toy_sodium hs in
   hs_s_sk hs = replicate 32 3 \<and> all_zero (hs_s_sk hs') \<and> r = Inl ''bad_alloc''"
  using split_erases_handshake_secrets [OF toy_erase_ok, of "\<lambda>_ _. Inl ''bad_alloc''"
    "HandshakeState_new toy_sodium XX True (generate_keypair toy_sodium (replicate 32 3)) None"]
  by (simp add: Let_def case_prod_unfold)
    (simp add: hs_split_with_def sym_split_with_def HandshakeState_new_def sym_of_def
      generate_keypair_def Let_def)

text \<open>
  C31. Moving a handshake: an object that is move-constructed any number of times in a row is
  the original one, and every object it was moved from has nothing but zeros in all nine key and
  hash buffers. A move assignment and the destructor leave no key material either.
\<close>

theorem moved_handshakes_are_zeroised:
  assumes "erase_ok S"
  shows "fst (relocate (hs_move S) n hs) = hs \<and>
    list_all (\<lambda>husk. list_all all_zero (hs_buffers husk)) (snd (relocate (hs_move S) n hs)) \<and>
    fst (hs_move_assign S target hs) = hs \<and>
    list_all all_zero (hs_buffers (snd (hs_move_assign S target hs))) \<and>
    list_all all_zero (hs_buffers (hs_destroy S hs))"
  using hs_obj.relocate_keeps [of S n hs] hs_obj.relocate_wipes [OF assms, of _ n hs]
    hs_obj.assign_keeps [of S target hs] hs_obj.assign_wipes [OF assms, of _ target hs]
    hs_obj.destroy_wipes [OF assms, of _ hs]
  by (simp add: list_all_iff)

theorem moved_handshakes_are_zeroised_witness:
  "let hs = HandshakeState_new toy_sodium XX True (generate_keypair toy_sodium (replicate 32 3)) None in
   fst (relocate (hs_move toy_sodium) 5 hs) = hs \<and>
   list_all (\<lambda>husk. list_all all_zero (hs_buffers husk)) (snd (relocate (hs_move toy_sodium) 5 hs))"
  unfolding Let_def using moved_handshakes_are_zeroised [OF toy_erase_ok] by blast

text \<open>
  C38. Reading is not bound to the turn: a fresh XX initiator, whose own first message is still
  unsent, accepts every inbound message of at least 32 bytes as the first message of the pattern. It returns the rest of the
  message as the payload, advances to the second message, and has not drawn an ephemeral key: its
  ephemeral secret is 32 zero bytes.
\<close>

theorem fresh_initiator_accepts_unsolicited_message:
  assumes "32 \<le> length message"
  shows "\<exists>hs'. read_message S message (HandshakeState_new S XX True kp None) =
      Returns (Some (drop 32 message), hs') \<and>
    hs_step hs' = 1 \<and> hs_re hs' = take 32 message \<and> hs_e_sk hs' = zeros 32"
proof -
  let ?hs = "HandshakeState_new S XX True kp None"
  have "hs_step ?hs = 0" "hs_pattern ?hs = XX" "\<not> is_complete ?hs" "hs_e_sk ?hs = zeros 32"
    "hs_re ?hs = zeros 32" "\<not> cs_has_key (ss_cipher (hs_symmetric ?hs))"
    by (simp_all add: HandshakeState_new_def Let_def sym_of_def is_complete_def sym_initialize_def
        cs_obj.assign_keeps CipherState_default_def)
  with assms show ?thesis
    by (simp add: read_message_def read_switch_def read_e_def decrypt_and_hash_def Let_def memcpy_def)
qed

theorem fresh_initiator_accepts_unsolicited_message_witness:
  "\<exists>hs'. read_message toy_sodium (replicate 34 1)
      (HandshakeState_new toy_sodium XX True (generate_keypair toy_sodium (replicate 32 3)) None) =
      Returns (Some (drop 32 (replicate 34 1)), hs') \<and>
    hs_step hs' = 1 \<and> hs_re hs' = take 32 (replicate 34 1) \<and> hs_e_sk hs' = zeros 32"
  by (rule fresh_initiator_accepts_unsolicited_message) simp

end
