(* ===== verification/Noise_Pattern.thy ===== *)
theory Noise_Pattern
  imports Handshake_Inv
begin

text \<open>
  The Noise framework as the reference for \<open>HandshakeState\<close>: message patterns as token lists and
  an interpreter for them, as in sections 5.3 and 7 of the Noise specification. The hand-unrolled
  switches of \<^verbatim>\<open>write_message\<close> and \<^verbatim>\<open>read_message\<close> are compared with the interpreter, and one
  simulation, by induction over the tokens, shows that a writer and a reader that interpret the
  same tokens stay in agreement.
\<close>

section \<open>Tokens and patterns\<close>

datatype token = TokE | TokS | TokEE | TokES | TokSE | TokSS

text \<open>The message patterns of the Noise specification.\<close>

fun noise_pattern :: "Pattern \<Rightarrow> token list list" where
  "noise_pattern XX = [[TokE], [TokE, TokEE, TokS, TokES], [TokS, TokSE]]"
| "noise_pattern IK = [[TokE, TokES, TokS, TokSS], [TokE, TokEE, TokSE]]"

text \<open>
  The message patterns that the program implements. They differ in the second IK message, where
  the code agrees on the initiator's ephemeral and the responder's static key once more.
\<close>

fun implemented_pattern :: "Pattern \<Rightarrow> token list list" where
  "implemented_pattern XX = [[TokE], [TokE, TokEE, TokS, TokES], [TokS, TokSE]]"
| "implemented_pattern IK = [[TokE, TokES, TokS, TokSS], [TokE, TokEE, TokES]]"

text \<open>
  The local private key and the remote public key of a Diffie-Hellman token: the first letter
  names the initiator's key, the second one the responder's.
\<close>

fun token_sk :: "bool \<Rightarrow> token \<Rightarrow> HandshakeState \<Rightarrow> bytes" where
  "token_sk _ TokEE = hs_e_sk"
| "token_sk initiator TokES = (if initiator then hs_e_sk else hs_s_sk)"
| "token_sk initiator TokSE = (if initiator then hs_s_sk else hs_e_sk)"
| "token_sk _ _ = hs_s_sk"

fun token_pk :: "bool \<Rightarrow> token \<Rightarrow> HandshakeState \<Rightarrow> bytes" where
  "token_pk _ TokEE = hs_re"
| "token_pk initiator TokES = (if initiator then hs_rs else hs_re)"
| "token_pk initiator TokSE = (if initiator then hs_re else hs_rs)"
| "token_pk _ _ = hs_rs"

fun write_token :: "'h sodium \<Rightarrow> bytes \<Rightarrow> bool \<Rightarrow> token \<Rightarrow> (HandshakeState \<times> bytes) command" where
  "write_token S rnd initiator TokE = write_e S rnd"
| "write_token S rnd initiator TokS = encrypt_static S"
| "write_token S rnd initiator t = mix_dh S (token_sk initiator t) (token_pk initiator t)"

fun read_token :: "'h sodium \<Rightarrow> bytes \<Rightarrow> bool \<Rightarrow> token \<Rightarrow> (HandshakeState \<times> nat) command" where
  "read_token S message initiator TokE = read_e S message"
| "read_token S message initiator TokS = read_encrypted_static S message"
| "read_token S message initiator t = mix_dh S (token_sk initiator t) (token_pk initiator t)"

definition pattern_write ::
  "token list list \<Rightarrow> 'h sodium \<Rightarrow> bytes \<Rightarrow> bytes \<Rightarrow> HandshakeState \<Rightarrow>
     (bytes option \<times> HandshakeState) outcome" where
  "pattern_write pats S rnd payload hs =
     (if nat (hs_step hs) < length pats then
        bind_outcome
          (run_seq (map (write_token S rnd (hs_initiator hs)) (pats ! nat (hs_step hs)) @
                    [encrypt_payload S payload]) (hs, []))
          (\<lambda>(ok, hs', out).
            if ok then Returns (Some out, hs'\<lparr>hs_step := hs_step hs' + 1\<rparr>)
            else Returns (None, hs'))
      else Returns (None, hs))"

definition pattern_read ::
  "token list list \<Rightarrow> 'h sodium \<Rightarrow> bytes \<Rightarrow> HandshakeState \<Rightarrow>
     (bytes option \<times> HandshakeState) outcome" where
  "pattern_read pats S message hs =
     (if nat (hs_step hs) < length pats then
        bind_outcome
          (run_seq (map (read_token S message (hs_initiator hs)) (pats ! nat (hs_step hs))) (hs, 0))
          (\<lambda>(ok, hs', offset).
            if ok then
              bind_outcome (decrypt_and_hash S (drop offset message) (hs_symmetric hs'))
                (\<lambda>(plain, ss).
                  case plain of
                    None \<Rightarrow> Returns (None, hs'\<lparr>hs_symmetric := ss\<rparr>)
                  | Some p \<Rightarrow> Returns (Some p, hs'\<lparr>hs_symmetric := ss, hs_step := hs_step hs' + 1\<rparr>))
            else Returns (None, hs'))
      else Returns (None, hs))"

section \<open>The program interprets the patterns\<close>

lemma step_cases:
  assumes "wf_hs hs" "\<not> is_complete hs"
  shows "hs_step hs = 0 \<or> hs_step hs = 1 \<or> hs_step hs = 2 \<and> hs_pattern hs = XX"
  using assms by (cases "hs_pattern hs") (auto simp: wf_hs_def is_complete_def)

lemma pattern_steps:
  assumes "wf_hs hs"
  shows "nat (hs_step hs) < length (implemented_pattern (hs_pattern hs)) \<longleftrightarrow> \<not> is_complete hs"
  using assms by (cases "hs_pattern hs") (auto simp: wf_hs_def is_complete_def)

text \<open>The writer of a step is the initiator at even steps and the responder at odd ones.\<close>

lemma write_switch_tokens:
  assumes "wf_hs hs" "\<not> is_complete hs" "hs_initiator hs = even (hs_step hs)"
  shows "write_switch S rnd payload hs =
    Some (map (write_token S rnd (hs_initiator hs))
            (implemented_pattern (hs_pattern hs) ! nat (hs_step hs)) @ [encrypt_payload S payload])"
  using step_cases [OF assms(1,2)] assms(3)
  by (cases "hs_pattern hs") (auto simp: write_switch_def)

lemma read_switch_tokens:
  assumes "wf_hs hs" "\<not> is_complete hs" "hs_initiator hs = odd (hs_step hs)"
  shows "read_switch S message hs =
    Some (map (read_token S message (hs_initiator hs))
            (implemented_pattern (hs_pattern hs) ! nat (hs_step hs)))"
  using step_cases [OF assms(1,2)] assms(3)
  by (cases "hs_pattern hs") (auto simp: read_switch_def)

lemma write_message_pattern:
  assumes "wf_hs hs" "hs_initiator hs = even (hs_step hs)"
  shows "write_message S rnd payload hs =
    pattern_write (implemented_pattern (hs_pattern hs)) S rnd payload hs"
  using pattern_steps [OF assms(1)]
    write_switch_tokens [OF assms(1) _ assms(2), where S = S and rnd = rnd and payload = payload]
  by (simp add: write_message_def pattern_write_def)

lemma read_message_pattern:
  assumes "wf_hs hs" "hs_initiator hs = odd (hs_step hs)"
  shows "read_message S message hs =
    pattern_read (implemented_pattern (hs_pattern hs)) S message hs"
proof (cases "is_complete hs")
  case True
  with pattern_steps [OF assms(1)] show ?thesis by (simp add: read_message_def pattern_read_def)
next
  case False
  with pattern_steps [OF assms(1)]
    read_switch_tokens [OF assms(1) _ assms(2), where S = S and message = message]
  show ?thesis
    by (auto simp: read_message_def pattern_read_def Let_def fun_eq_iff
        intro!: arg_cong2 [where f = bind_outcome] split: option.splits)
qed

section \<open>Properties\<close>

text \<open>
  C3. The XX messages are those of the Noise specification: on its turn (the initiator at even
  steps, the responder at odd ones) \<open>write_message\<close> is the interpretation of the token list of the
  specification for that message, and off its turn \<open>read_message\<close> is, for every payload, message
  and random draw, with the same state changes also when the message is rejected half-way.
\<close>

theorem xx_messages_follow_noise:
  assumes "wf_hs hs" and "hs_pattern hs = XX"
  shows "if hs_initiator hs = even (hs_step hs)
    then write_message S rnd payload hs = pattern_write (noise_pattern XX) S rnd payload hs
    else read_message S message hs = pattern_read (noise_pattern XX) S message hs"
  using write_message_pattern [OF assms(1), of S rnd payload] read_message_pattern [OF assms(1), of S message] assms(2)
  by auto

theorem xx_messages_follow_noise_witness:
  "write_message toy_sodium (replicate 32 1) [7]
     (HandshakeState_new toy_sodium XX True (generate_keypair toy_sodium (replicate 32 3)) None) =
   pattern_write (noise_pattern XX) toy_sodium (replicate 32 1) [7]
     (HandshakeState_new toy_sodium XX True (generate_keypair toy_sodium (replicate 32 3)) None)"
proof -
  let ?hs = "HandshakeState_new toy_sodium XX True (generate_keypair toy_sodium (replicate 32 3)) None"
  have "wf_hs ?hs"
    by (rule wf_keys_new) (simp_all add: generate_keypair_def toy_sodium_def hash_ok_def toy_parts)
  moreover have "hs_pattern ?hs = XX" "hs_initiator ?hs = even (hs_step ?hs)"
    by (simp_all add: HandshakeState_new_def Let_def)
  ultimately show ?thesis
    using xx_messages_follow_noise [of ?hs toy_sodium "replicate 32 1" "[7]" "[]"] by simp
qed

text \<open>
  C21. The first IK message is the one of the specification: \<open>e, es, s, ss\<close> and the payload, on
  the initiator's side and on the responder's.
\<close>

theorem ik_first_message_follows_noise:
  assumes "wf_hs hs" and "hs_pattern hs = IK" and "hs_step hs = 0"
  shows "if hs_initiator hs
    then write_message S rnd payload hs = pattern_write (noise_pattern IK) S rnd payload hs
    else read_message S message hs = pattern_read (noise_pattern IK) S message hs"
  using write_message_pattern [OF assms(1), of S rnd payload] read_message_pattern [OF assms(1), of S message] assms(2,3)
  by (auto simp: pattern_write_def pattern_read_def)

theorem ik_first_message_follows_noise_witness:
  "read_message toy_sodium (replicate 100 1)
     (HandshakeState_new toy_sodium IK False (generate_keypair toy_sodium (replicate 32 3)) None) =
   pattern_read (noise_pattern IK) toy_sodium (replicate 100 1)
     (HandshakeState_new toy_sodium IK False (generate_keypair toy_sodium (replicate 32 3)) None)"
proof -
  let ?hs = "HandshakeState_new toy_sodium IK False (generate_keypair toy_sodium (replicate 32 3)) None"
  have "wf_hs ?hs"
    by (rule wf_keys_new) (simp_all add: generate_keypair_def toy_sodium_def hash_ok_def toy_parts)
  moreover have "hs_pattern ?hs = IK" "hs_step ?hs = 0" "\<not> hs_initiator ?hs"
    by (simp_all add: HandshakeState_new_def Let_def)
  ultimately show ?thesis
    using ik_first_message_follows_noise [of ?hs toy_sodium "[]" "[]" "replicate 100 1"] by simp
qed

end
