(* ===== verification/Handshake_Sync.thy ===== *)
theory Handshake_Sync
  imports Noise_Pattern
begin

text \<open>
  A writer and a reader of the same handshake message. The relation \<open>synced\<close> says what the two
  parties agree on; the simulation lemmas show that interpreting the same tokens keeps it, that
  the reader consumes exactly the bytes the writer produced, and that neither side can abort.
\<close>

section \<open>Agreement of the two parties\<close>

text \<open>
  Which public keys have reached the other side: the writer's and the reader's ephemeral and
  static keys, and whether a handshake key has been mixed in.
\<close>

record knowledge =
  kn_we :: bool
  kn_ws :: bool
  kn_re :: bool
  kn_rs :: bool
  kn_key :: bool

definition own_keypair :: "'h sodium \<Rightarrow> bytes \<Rightarrow> bytes \<Rightarrow> bool" where
  "own_keypair S sk pk \<longleftrightarrow> length sk = 32 \<and> pk = crypto_scalarmult_base S sk"

definition synced :: "'h sodium \<Rightarrow> knowledge \<Rightarrow> HandshakeState \<Rightarrow> HandshakeState \<Rightarrow> bool" where
  "synced S K w r \<longleftrightarrow>
     wf_keys w \<and> wf_keys r \<and> hs_initiator r = (\<not> hs_initiator w) \<and>
     hs_symmetric r = hs_symmetric w \<and>
     own_keypair S (hs_s_sk w) (hs_s_pk w) \<and> own_keypair S (hs_s_sk r) (hs_s_pk r) \<and>
     (kn_we K \<longrightarrow> own_keypair S (hs_e_sk w) (hs_e_pk w) \<and> hs_re r = hs_e_pk w) \<and>
     (kn_re K \<longrightarrow> own_keypair S (hs_e_sk r) (hs_e_pk r) \<and> hs_re w = hs_e_pk r) \<and>
     (kn_ws K \<longrightarrow> hs_rs r = hs_s_pk w \<and> hs_rs_known r) \<and>
     (kn_rs K \<longrightarrow> hs_rs w = hs_s_pk r \<and> hs_rs_known w) \<and>
     cs_has_key (ss_cipher (hs_symmetric w)) = kn_key K"

text \<open>What a token needs, and what it teaches the reader.\<close>

fun token_ready :: "bool \<Rightarrow> knowledge \<Rightarrow> token \<Rightarrow> bool" where
  "token_ready initiator K TokE = True"
| "token_ready initiator K TokS = kn_key K"
| "token_ready initiator K TokEE = (kn_we K \<and> kn_re K)"
| "token_ready initiator K TokES = (if initiator then kn_we K \<and> kn_rs K else kn_ws K \<and> kn_re K)"
| "token_ready initiator K TokSE = (if initiator then kn_ws K \<and> kn_re K else kn_we K \<and> kn_rs K)"
| "token_ready initiator K TokSS = (kn_ws K \<and> kn_rs K)"

fun learn :: "token \<Rightarrow> knowledge \<Rightarrow> knowledge" where
  "learn TokE K = K\<lparr>kn_we := True\<rparr>"
| "learn TokS K = K\<lparr>kn_ws := True\<rparr>"
| "learn _ K = K\<lparr>kn_key := True\<rparr>"

fun tokens_ready :: "bool \<Rightarrow> knowledge \<Rightarrow> token list \<Rightarrow> bool" where
  "tokens_ready initiator K [] = True"
| "tokens_ready initiator K (t # ts) =
     (token_ready initiator K t \<and> tokens_ready initiator (learn t K) ts)"

text \<open>Bytes of a token on the wire.\<close>

fun token_size :: "token \<Rightarrow> nat" where
  "token_size TokE = 32"
| "token_size TokS = 48"
| "token_size _ = 0"

lemma synced_wfD:
  assumes "synced S K w r"
  shows "wf_keys w" "wf_keys r" "wf_sym (hs_symmetric w)" "hs_symmetric r = hs_symmetric w"
    "hs_initiator r = (\<not> hs_initiator w)" "length (hs_s_pk w) = 32"
    "cs_has_key (ss_cipher (hs_symmetric w)) = kn_key K"
  using assms by (auto simp: synced_def wf_keys_def)

section \<open>One token\<close>

text \<open>
  The laws of the library that a handshake run relies on.
\<close>

definition run_laws :: "'h sodium \<Rightarrow> bool" where
  "run_laws S \<longleftrightarrow> hash_ok S \<and> aead_ok S \<and> dh_ok S"

lemma run_lawsD: "run_laws S \<Longrightarrow> hash_ok S" "run_laws S \<Longrightarrow> aead_ok S" "run_laws S \<Longrightarrow> dh_ok S"
  by (simp_all add: run_laws_def)

definition token_sim ::
  "'h sodium \<Rightarrow> bytes \<Rightarrow> knowledge \<Rightarrow> token \<Rightarrow> HandshakeState \<Rightarrow> HandshakeState \<Rightarrow> bytes \<Rightarrow>
     HandshakeState \<Rightarrow> HandshakeState \<Rightarrow> bytes \<Rightarrow> bool" where
  "token_sim S rnd K t w r out w' r' bs \<longleftrightarrow>
     write_token S rnd (hs_initiator w) t (w, out) = Returns (True, w', out @ bs) \<and>
     (\<forall>rest. read_token S (out @ bs @ rest) (hs_initiator r) t (r, length out) =
        Returns (True, r', length out + length bs)) \<and>
     synced S (learn t K) w' r' \<and> length bs = token_size t \<and>
     same_session w w' \<and> same_session r r' \<and>
     nonces_left (ss_cipher (hs_symmetric w)) \<le> Suc (nonces_left (ss_cipher (hs_symmetric w')))"

lemma sim_e:
  assumes S: "run_laws S" and sync: "synced S K w r" and rnd: "length rnd = 32"
  shows "\<exists>w' r' bs. token_sim S rnd K TokE w r out w' r' bs"
proof -
  let ?pk = "crypto_scalarmult_base S rnd"
  have pk: "length ?pk = 32" using S rnd by (simp add: run_lawsD len_simps)
  have key: "own_keypair S rnd ?pk" using rnd by (simp add: own_keypair_def)
  let ?w = "sym_of (mix_hash S ?pk) (w\<lparr>hs_e_pk := ?pk, hs_e_sk := rnd\<rparr>)"
  let ?r = "sym_of (mix_hash S ?pk) (r\<lparr>hs_re := ?pk\<rparr>)"
  have w: "write_e S rnd (w, out) = Returns (True, ?w, out @ ?pk)"
    by (simp add: write_e_def generate_keypair_def Let_def)
  have r: "read_e S (out @ ?pk @ rest) (r, length out) = Returns (True, ?r, length out + length ?pk)" for rest
    using sync pk by (simp add: read_e_def Let_def memcpy_def synced_def wf_keys_def)
  have "wf_sym (mix_hash S ?pk (hs_symmetric w))"
    using S sync by (simp add: synced_wfD run_lawsD wf_mix_hash)
  then have "synced S (learn TokE K) ?w ?r"
    using sync rnd pk key by (simp add: synced_def wf_keys_def)
  then have "token_sim S rnd K TokE w r out ?w ?r ?pk"
    using w r pk by (simp add: token_sim_def same_session_def)
  then show ?thesis by blast
qed

lemma sim_s:
  assumes S: "run_laws S" and sync: "synced S K w r" and key: "kn_key K"
    and left: "0 < nonces_left (ss_cipher (hs_symmetric w))"
  shows "\<exists>w' r' bs. token_sim S rnd K TokS w r out w' r' bs"
proof -
  note wf = synced_wfD [OF sync]
  have link: "hash_ok S \<and> aead_ok S \<and> wf_sym (hs_symmetric w) \<and> hs_symmetric w = hs_symmetric w"
    using S wf by (simp add: run_lawsD)
  from sym.transmits [OF link left, of "hs_s_pk w"] obtain bs ss
    where enc: "encrypt_and_hash S (hs_s_pk w) (hs_symmetric w) = Returns (bs, ss)"
      and left': "nonces_left (ss_cipher (hs_symmetric w)) \<le> Suc (nonces_left (ss_cipher ss))" by blast
  from sym.deliver [OF link enc] have dec: "decrypt_and_hash S bs (hs_symmetric w) = Returns (Some (hs_s_pk w), ss)"
    and ss: "wf_sym ss" by blast+
  have len: "length bs = 48"
    using length_encrypt_and_hash [OF _ wf(3) enc] S key wf by (simp add: run_lawsD)
  have has: "cs_has_key (ss_cipher ss) = kn_key K"
    using enc wf(7) by (auto simp: encrypt_and_hash_def encrypt_with_ad_def Let_def split: if_splits)
  let ?w = "w\<lparr>hs_symmetric := ss\<rparr>"
  let ?r = "r\<lparr>hs_symmetric := ss, hs_rs := hs_s_pk w, hs_rs_known := True\<rparr>"
  have w: "encrypt_static S (w, out) = Returns (True, ?w, out @ bs)"
    using enc by (simp add: encrypt_static_def encrypt_field_def)
  have r: "read_encrypted_static S (out @ bs @ rest) (r, length out) = Returns (True, ?r, length out + length bs)"
    for rest
    using len dec wf by (simp add: read_encrypted_static_def Let_def memcpy_def wf_keys_def)
  have "synced S (learn TokS K) ?w ?r"
    using sync ss has by (simp add: synced_def wf_keys_def)
  then have "token_sim S rnd K TokS w r out ?w ?r bs"
    using w r len left' by (simp add: token_sim_def same_session_def)
  then show ?thesis by blast
qed

text \<open>The two sides of a Diffie-Hellman token compute the same secret.\<close>

lemma dh_token_agree:
  assumes S: "run_laws S" and sync: "synced S K w r" and ready: "token_ready (hs_initiator w) K t"
    and t: "t \<notin> {TokE, TokS}"
  obtains z where
    "dh S (token_sk (hs_initiator w) t w) (token_pk (hs_initiator w) t w) = Some z"
    "dh S (token_sk (hs_initiator r) t r) (token_pk (hs_initiator r) t r) = Some z"
proof -
  have agree: "\<exists>z. dh S a (crypto_scalarmult_base S b) = Some z \<and> dh S b (crypto_scalarmult_base S a) = Some z"
    if "length a = 32" "length b = 32" for a b
    using dh_succeeds [OF run_lawsD(3) [OF S] that] dh_agree [OF run_lawsD(3) [OF S] that]
    by (auto simp: dh_def)
  have "\<exists>z. dh S (token_sk (hs_initiator w) t w) (token_pk (hs_initiator w) t w) = Some z \<and>
            dh S (token_sk (hs_initiator r) t r) (token_pk (hs_initiator r) t r) = Some z"
    using sync ready t by (cases t) (auto simp: synced_def own_keypair_def intro!: agree split: if_splits)
  with that show ?thesis by blast
qed

lemma sim_dh:
  assumes S: "run_laws S" and sync: "synced S K w r" and ready: "token_ready (hs_initiator w) K t"
    and t: "t \<notin> {TokE, TokS}"
  shows "\<exists>w' r' bs. token_sim S rnd K t w r out w' r' bs"
proof -
  from dh_token_agree [OF assms] obtain z where
    zw: "dh S (token_sk (hs_initiator w) t w) (token_pk (hs_initiator w) t w) = Some z" and
    zr: "dh S (token_sk (hs_initiator r) t r) (token_pk (hs_initiator r) t r) = Some z" .
  have tok: "write_token S rnd i t = mix_dh S (token_sk i t) (token_pk i t)"
    "read_token S m i t = mix_dh S (token_sk i t) (token_pk i t)"
    "learn t K = K\<lparr>kn_key := True\<rparr>" "token_size t = 0" for i m
    using t by (cases t; simp)+
  let ?w = "sym_of (mix_key S z) w" and ?r = "sym_of (mix_key S z) r"
  have "wf_sym (mix_key S z (hs_symmetric w))"
    using S sync by (simp add: synced_wfD run_lawsD wf_mix_key)
  then have "synced S (learn t K) ?w ?r"
    using sync by (simp add: tok synced_def wf_keys_def)
  moreover have "nonces_left (ss_cipher (hs_symmetric w)) \<le>
      Suc (nonces_left (ss_cipher (mix_key S z (hs_symmetric w))))"
    by (simp add: nonces_left_def)
  ultimately have "token_sim S rnd K t w r out ?w ?r []"
    using zw zr by (simp add: token_sim_def tok mix_dh_def same_session_def)
  then show ?thesis by blast
qed

lemma sim_token:
  assumes "run_laws S" "synced S K w r" "length rnd = 32" "token_ready (hs_initiator w) K t"
    "0 < nonces_left (ss_cipher (hs_symmetric w))"
  shows "\<exists>w' r' bs. token_sim S rnd K t w r out w' r' bs"
proof -
  consider "t = TokE" | "t = TokS" | "t \<notin> {TokE, TokS}" by blast
  then show ?thesis
  proof cases
    case 1
    then show ?thesis using sim_e [OF assms(1-3)] by simp
  next
    case 2
    then show ?thesis using sim_s [OF assms(1,2) _ assms(5)] assms(4) by simp
  next
    case 3
    then show ?thesis by (rule sim_dh [OF assms(1,2,4)])
  qed
qed

section \<open>A message\<close>

fun learn_all :: "token list \<Rightarrow> knowledge \<Rightarrow> knowledge" where
  "learn_all [] K = K"
| "learn_all (t # ts) K = learn_all ts (learn t K)"

text \<open>
  The token lists of both sides in step: the reader, at the position where the writer started,
  consumes the writer's bytes whatever follows them.
\<close>

lemma sim_tokens:
  assumes "run_laws S" "length rnd = 32"
  shows "synced S K w r \<Longrightarrow> tokens_ready (hs_initiator w) K ts \<Longrightarrow>
    length ts \<le> nonces_left (ss_cipher (hs_symmetric w)) \<Longrightarrow>
    \<exists>w' r' bs.
      run_seq (map (write_token S rnd (hs_initiator w)) ts) (w, out) = Returns (True, w', out @ bs) \<and>
      (\<forall>rest. run_seq (map (read_token S (out @ bs @ rest) (hs_initiator r)) ts) (r, length out) =
         Returns (True, r', length out + length bs)) \<and>
      synced S (learn_all ts K) w' r' \<and> length bs = sum_list (map token_size ts) \<and>
      same_session w w' \<and> same_session r r' \<and>
      nonces_left (ss_cipher (hs_symmetric w)) \<le> nonces_left (ss_cipher (hs_symmetric w')) + length ts"
proof (induction ts arbitrary: K w r out)
  case Nil
  then show ?case by auto
next
  case (Cons t ts)
  from Cons.prems sim_token [OF assms(1) Cons.prems(1) assms(2)]
  obtain w1 r1 b1 where t: "token_sim S rnd K t w r out w1 r1 b1" by fastforce
  then have init: "hs_initiator w1 = hs_initiator w" "hs_initiator r1 = hs_initiator r"
    by (simp_all add: token_sim_def same_session_def)
  from t have "synced S (learn t K) w1 r1"
    and left: "nonces_left (ss_cipher (hs_symmetric w)) \<le> Suc (nonces_left (ss_cipher (hs_symmetric w1)))"
    by (simp_all add: token_sim_def)
  with Cons.prems init Cons.IH [of "learn t K" w1 r1 "out @ b1"] obtain w' r' bs
    where run: "run_seq (map (write_token S rnd (hs_initiator w)) ts) (w1, out @ b1) = Returns (True, w', (out @ b1) @ bs)"
      "\<And>rest. run_seq (map (read_token S ((out @ b1) @ bs @ rest) (hs_initiator r)) ts) (r1, length (out @ b1)) =
         Returns (True, r', length (out @ b1) + length bs)"
      and post: "synced S (learn_all ts (learn t K)) w' r'" "length bs = sum_list (map token_size ts)"
      "same_session w1 w'" "same_session r1 r'"
      "nonces_left (ss_cipher (hs_symmetric w1)) \<le> nonces_left (ss_cipher (hs_symmetric w')) + length ts"
    by auto
  have "run_seq (map (write_token S rnd (hs_initiator w)) (t # ts)) (w, out) = Returns (True, w', out @ b1 @ bs)"
    using t run(1) by (simp add: token_sim_def)
  moreover have "run_seq (map (read_token S (out @ (b1 @ bs) @ rest) (hs_initiator r)) (t # ts)) (r, length out) =
         Returns (True, r', length out + length (b1 @ bs))" for rest
    using t run(2) [of rest] by (simp add: token_sim_def add.assoc)
  moreover have "same_session w w'" "same_session r r'"
    using t post(3,4) by (auto simp: token_sim_def intro: same_session_trans)
  moreover have "length (b1 @ bs) = sum_list (map token_size (t # ts))"
    "nonces_left (ss_cipher (hs_symmetric w)) \<le> nonces_left (ss_cipher (hs_symmetric w')) + length (t # ts)"
    using t post left by (auto simp: token_sim_def)
  ultimately show ?case using post(1) by (metis learn_all.simps(2))
qed

text \<open>The payload closes the message; it is sealed as soon as a key has been mixed in.\<close>

definition message_size :: "knowledge \<Rightarrow> token list \<Rightarrow> nat \<Rightarrow> nat" where
  "message_size K ts n =
     sum_list (map token_size ts) + n + (if kn_key (learn_all ts K) then AEAD_TAG_BYTES else 0)"

definition message_sim ::
  "'h sodium \<Rightarrow> knowledge \<Rightarrow> token list \<Rightarrow> bytes \<Rightarrow> bytes \<Rightarrow> HandshakeState \<Rightarrow> HandshakeState \<Rightarrow>
     bytes \<Rightarrow> HandshakeState \<Rightarrow> HandshakeState \<Rightarrow> bool" where
  "message_sim S K ts rnd payload w r m w' r' \<longleftrightarrow>
     write_message S rnd payload w = Returns (Some m, w') \<and>
     read_message S m r = Returns (Some payload, r') \<and>
     synced S (learn_all ts K) w' r' \<and> length m = message_size K ts (length payload) \<and>
     same_session (w\<lparr>hs_step := hs_step w + 1\<rparr>) w' \<and> same_session (r\<lparr>hs_step := hs_step r + 1\<rparr>) r' \<and>
     nonces_left (ss_cipher (hs_symmetric w)) \<le>
       nonces_left (ss_cipher (hs_symmetric w')) + Suc (length ts)"

lemma sim_message:
  assumes S: "run_laws S" and rnd: "length rnd = 32" and sync: "synced S K w r"
    and wf: "wf_hs w" "wf_hs r" and same: "hs_pattern r = hs_pattern w" "hs_step r = hs_step w"
    and turn: "hs_initiator w = even (hs_step w)" and more: "\<not> is_complete w"
    and ts: "ts = implemented_pattern (hs_pattern w) ! nat (hs_step w)"
    and ready: "tokens_ready (hs_initiator w) K ts"
    and left: "Suc (length ts) \<le> nonces_left (ss_cipher (hs_symmetric w))"
  shows "\<exists>m w' r'. message_sim S K ts rnd payload w r m w' r'"
proof -
  have more_r: "\<not> is_complete r" and turn_r: "hs_initiator r = odd (hs_step r)"
    using more wf same turn sync by (auto simp: is_complete_def wf_hs_def synced_def)
  from sim_tokens [OF S rnd sync ready, of "[]"] left obtain w1 r1 bs
    where run: "run_seq (map (write_token S rnd (hs_initiator w)) ts) (w, []) = Returns (True, w1, bs)"
      "\<And>rest. run_seq (map (read_token S (bs @ rest) (hs_initiator r)) ts) (r, 0) = Returns (True, r1, length bs)"
      and post: "synced S (learn_all ts K) w1 r1" "length bs = sum_list (map token_size ts)"
      "same_session w w1" "same_session r r1"
      "nonces_left (ss_cipher (hs_symmetric w)) \<le> nonces_left (ss_cipher (hs_symmetric w1)) + length ts"
    by auto
  note wf1 = synced_wfD [OF post(1)]
  have link: "hash_ok S \<and> aead_ok S \<and> wf_sym (hs_symmetric w1) \<and> hs_symmetric w1 = hs_symmetric w1"
    using S wf1 by (simp add: run_lawsD)
  have pos: "0 < nonces_left (ss_cipher (hs_symmetric w1))" using left post(5) by simp
  from sym.transmits [OF link pos, of payload] obtain c ss
    where enc: "encrypt_and_hash S payload (hs_symmetric w1) = Returns (c, ss)"
      and left': "nonces_left (ss_cipher (hs_symmetric w1)) \<le> Suc (nonces_left (ss_cipher ss))" by blast
  from sym.deliver [OF link enc] have dec: "decrypt_and_hash S c (hs_symmetric w1) = Returns (Some payload, ss)"
    and ss: "wf_sym ss" by blast+
  have has: "cs_has_key (ss_cipher ss) = kn_key (learn_all ts K)"
    using enc wf1(7) by (auto simp: encrypt_and_hash_def encrypt_with_ad_def Let_def split: if_splits)
  have len: "length (bs @ c) = message_size K ts (length payload)"
    using length_encrypt_and_hash [OF _ wf1(3) enc] S post(2) wf1(7)
    by (simp add: run_lawsD message_size_def)
  let ?w = "w1\<lparr>hs_symmetric := ss, hs_step := hs_step w1 + 1\<rparr>"
  let ?r = "r1\<lparr>hs_symmetric := ss, hs_step := hs_step r1 + 1\<rparr>"
  have "write_message S rnd payload w = Returns (Some (bs @ c), ?w)"
    using more write_switch_tokens [OF wf(1) more turn, of S rnd payload] run(1) enc
    by (simp add: write_message_def run_seq_append encrypt_payload_def encrypt_field_def flip: ts)
  moreover have "read_message S (bs @ c) r = Returns (Some payload, ?r)"
    using more_r read_switch_tokens [OF wf(2) more_r turn_r, of S "bs @ c"] run(2) dec wf1(4)
    by (simp add: read_message_def same flip: ts)
  moreover have "synced S (learn_all ts K) ?w ?r"
    using post(1) ss has by (simp add: synced_def wf_keys_def)
  ultimately have "message_sim S K ts rnd payload w r (bs @ c) ?w ?r"
    using len post(3-5) left' by (simp add: message_sim_def same_session_def)
  then show ?thesis by blast
qed

end
