(* ===== verification/Handshake_Run.thy ===== *)
theory Handshake_Run
  imports Handshake_Sync
begin

text \<open>
  Complete handshakes between two honest parties: the messages of a pattern written and read in
  turn, the keys and the transcript hash both sides end with, and the mirrored transport ciphers.
\<close>

section \<open>Runs\<close>

text \<open>
  One message: the writer produces it, the reader consumes it. The result is absent when either
  side refuses. A run alternates the roles; each entry of the script holds the random bytes drawn
  for the message and its payload.
\<close>

definition exchange ::
  "'h sodium \<Rightarrow> bytes \<Rightarrow> bytes \<Rightarrow> HandshakeState \<Rightarrow> HandshakeState \<Rightarrow>
     (bytes \<times> bytes \<times> HandshakeState \<times> HandshakeState) option outcome" where
  "exchange S rnd payload w r =
     bind_outcome (write_message S rnd payload w) (\<lambda>(m, w').
       case m of
         None \<Rightarrow> Returns None
       | Some m \<Rightarrow>
           bind_outcome (read_message S m r) (\<lambda>(p, r').
             case p of None \<Rightarrow> Returns None | Some p \<Rightarrow> Returns (Some (m, p, w', r'))))"

fun run_handshake ::
  "'h sodium \<Rightarrow> (bytes \<times> bytes) list \<Rightarrow> HandshakeState \<Rightarrow> HandshakeState \<Rightarrow>
     (bytes list \<times> bytes list \<times> HandshakeState \<times> HandshakeState) option outcome" where
  "run_handshake S [] w r = Returns (Some ([], [], w, r))"
| "run_handshake S ((rnd, payload) # xs) w r =
     bind_outcome (exchange S rnd payload w r) (\<lambda>x.
       case x of
         None \<Rightarrow> Returns None
       | Some (m, p, w', r') \<Rightarrow>
           bind_outcome (run_handshake S xs r' w') (\<lambda>y.
             case y of
               None \<Rightarrow> Returns None
             | Some (ms, ps, r'', w'') \<Rightarrow> Returns (Some (m # ms, p # ps, w'', r''))))"

section \<open>Knowledge along a pattern\<close>

definition swap_kn :: "knowledge \<Rightarrow> knowledge" where
  "swap_kn K = \<lparr>kn_we = kn_re K, kn_ws = kn_rs K, kn_re = kn_we K, kn_rs = kn_ws K, kn_key = kn_key K\<rparr>"

lemma swap_kn_sel [simp]:
  "kn_we (swap_kn K) = kn_re K" "kn_ws (swap_kn K) = kn_rs K" "kn_re (swap_kn K) = kn_we K"
  "kn_rs (swap_kn K) = kn_ws K" "kn_key (swap_kn K) = kn_key K"
  by (simp_all add: swap_kn_def)

lemma swap_kn_swap [simp]: "swap_kn (swap_kn K) = K"
  by (simp add: swap_kn_def)

lemma synced_swap: "synced S K w r \<Longrightarrow> synced S (swap_kn K) r w"
  by (auto simp: synced_def)

fun patterns_ready :: "bool \<Rightarrow> knowledge \<Rightarrow> token list list \<Rightarrow> bool" where
  "patterns_ready initiator K [] = True"
| "patterns_ready initiator K (ts # pats) =
     (tokens_ready initiator K ts \<and> patterns_ready (\<not> initiator) (swap_kn (learn_all ts K)) pats)"

fun final_kn :: "token list list \<Rightarrow> knowledge \<Rightarrow> knowledge" where
  "final_kn [] K = K"
| "final_kn (ts # pats) K = swap_kn (final_kn pats (swap_kn (learn_all ts K)))"

fun wire_sizes :: "knowledge \<Rightarrow> token list list \<Rightarrow> nat list \<Rightarrow> nat list" where
  "wire_sizes K (ts # pats) (n # ns) =
     message_size K ts n # wire_sizes (swap_kn (learn_all ts K)) pats ns"
| "wire_sizes K _ _ = []"

definition wire_budget :: "token list list \<Rightarrow> nat" where
  "wire_budget pats = sum_list (map (\<lambda>ts. Suc (length ts)) pats)"

section \<open>Simulation of a run\<close>

definition turn_ok :: "'h sodium \<Rightarrow> knowledge \<Rightarrow> token list list \<Rightarrow> HandshakeState \<Rightarrow> HandshakeState \<Rightarrow> bool" where
  "turn_ok S K pats w r \<longleftrightarrow>
     synced S K w r \<and> wf_hs w \<and> wf_hs r \<and> hs_pattern r = hs_pattern w \<and> hs_step r = hs_step w \<and>
     hs_initiator w = even (hs_step w) \<and>
     pats = drop (nat (hs_step w)) (implemented_pattern (hs_pattern w)) \<and>
     patterns_ready (hs_initiator w) K pats \<and>
     wire_budget pats \<le> nonces_left (ss_cipher (hs_symmetric w))"

lemma turn_step:
  assumes S: "run_laws S" and rnd: "length rnd = 32" and turn: "turn_ok S K (ts # pats) w r"
  shows "\<exists>m w' r'. exchange S rnd payload w r = Returns (Some (m, payload, w', r')) \<and>
           length m = message_size K ts (length payload) \<and>
           turn_ok S (swap_kn (learn_all ts K)) pats r' w' \<and>
           same_session (w\<lparr>hs_step := hs_step w + 1\<rparr>) w' \<and> same_session (r\<lparr>hs_step := hs_step r + 1\<rparr>) r'"
proof -
  have drp: "ts # pats = drop (nat (hs_step w)) (implemented_pattern (hs_pattern w))"
    and wf: "wf_hs w" "wf_hs r" using turn by (simp_all add: turn_ok_def)
  then have lt: "nat (hs_step w) < length (implemented_pattern (hs_pattern w))"
    by (metis drop_eq_Nil linorder_not_le list.distinct(1))
  then have more: "\<not> is_complete w" using pattern_steps [OF wf(1)] by simp
  have ts: "ts = implemented_pattern (hs_pattern w) ! nat (hs_step w)"
    and pats: "pats = drop (Suc (nat (hs_step w))) (implemented_pattern (hs_pattern w))"
    using Cons_nth_drop_Suc [OF lt] drp by (metis list.inject)+
  have sync: "synced S K w r" "hs_pattern r = hs_pattern w" "hs_step r = hs_step w"
      "hs_initiator w = even (hs_step w)"
    and ready: "tokens_ready (hs_initiator w) K ts"
    and left: "Suc (length ts) \<le> nonces_left (ss_cipher (hs_symmetric w))"
    using turn by (auto simp: turn_ok_def wire_budget_def)
  from sim_message [OF S rnd sync(1) wf sync(2-4) more ts ready left]
  obtain m w' r' where m: "message_sim S K ts rnd payload w r m w' r'" by blast
  have "wf_hs w'" "wf_hs r'"
    using m wf wf_write_message [OF run_lawsD(1,3) [OF S] rnd wf(1)] wf_read_message [OF run_lawsD(1) [OF S] wf(2)]
    by (auto simp: message_sim_def)
  moreover have "nat (hs_step w + 1) = Suc (nat (hs_step w))"
    using wf(1) by (simp add: wf_hs_def nat_add_distrib)
  moreover have "cs_has_key (ss_cipher (hs_symmetric w')) = kn_key (learn_all ts K)" "hs_symmetric r' = hs_symmetric w'"
    using m by (simp_all add: message_sim_def synced_def)
  ultimately have "turn_ok S (swap_kn (learn_all ts K)) pats r' w'"
    using m turn pats
    by (auto simp: turn_ok_def message_sim_def same_session_def wire_budget_def synced_swap synced_wfD(5))
  with m show ?thesis by (auto simp: exchange_def message_sim_def)
qed

lemma sim_run:
  assumes S: "run_laws S"
  shows "turn_ok S K pats w r \<Longrightarrow> length xs = length pats \<Longrightarrow> \<forall>x\<in>set xs. length (fst x) = 32 \<Longrightarrow>
    \<exists>ms w' r'. run_handshake S xs w r = Returns (Some (ms, map snd xs, w', r')) \<and>
      synced S (final_kn pats K) w' r' \<and> is_complete w' \<and> is_complete r' \<and>
      map length ms = wire_sizes K pats (map (\<lambda>x. length (snd x)) xs) \<and>
      hs_initiator w' = hs_initiator w \<and> hs_s_pk w' = hs_s_pk w \<and> hs_s_pk r' = hs_s_pk r"
proof (induction pats arbitrary: K w r xs)
  case Nil
  then have "is_complete w" "is_complete r"
    using pattern_steps [of w] pattern_steps [of r] by (auto simp: turn_ok_def)
  with Nil show ?case by (auto simp: turn_ok_def)
next
  case (Cons ts pats)
  from Cons.prems obtain rnd payload ys where xs: "xs = (rnd, payload) # ys"
    by (metis length_Suc_conv surj_pair)
  with Cons.prems have rnd: "length rnd = 32" and ys: "length ys = length pats" "\<forall>x\<in>set ys. length (fst x) = 32"
    by auto
  from turn_step [OF S rnd Cons.prems(1), of payload] obtain m w1 r1
    where ex: "exchange S rnd payload w r = Returns (Some (m, payload, w1, r1))"
      and m: "length m = message_size K ts (length payload)"
      and turn: "turn_ok S (swap_kn (learn_all ts K)) pats r1 w1"
      and same: "same_session (w\<lparr>hs_step := hs_step w + 1\<rparr>) w1" "same_session (r\<lparr>hs_step := hs_step r + 1\<rparr>) r1"
    by blast
  from Cons.IH [OF turn ys] obtain ms r2 w2
    where rest: "run_handshake S ys r1 w1 = Returns (Some (ms, map snd ys, r2, w2))"
      and post: "synced S (final_kn pats (swap_kn (learn_all ts K))) r2 w2" "is_complete r2" "is_complete w2"
      "map length ms = wire_sizes (swap_kn (learn_all ts K)) pats (map (\<lambda>x. length (snd x)) ys)"
      "hs_initiator r2 = hs_initiator r1" "hs_s_pk r2 = hs_s_pk r1" "hs_s_pk w2 = hs_s_pk w1"
    by blast
  have "hs_initiator w2 = hs_initiator w"
    using synced_wfD(5) [OF post(1)] post(5) same Cons.prems(1)
    by (auto simp: same_session_def turn_ok_def dest: synced_wfD(5))
  with ex rest post m same synced_swap [OF post(1)] show ?case
    by (auto simp: xs same_session_def)
qed

section \<open>Both patterns\<close>

lemma own_keypair_length:
  "run_laws S \<Longrightarrow> own_keypair S sk pk \<Longrightarrow> length sk = 32 \<and> length pk = 32"
  by (simp add: own_keypair_def run_lawsD len_simps)

definition no_kn :: knowledge where
  "no_kn = \<lparr>kn_we = False, kn_ws = False, kn_re = False, kn_rs = False, kn_key = False\<rparr>"

lemma fresh_cipher:
  "ss_cipher (hs_symmetric (HandshakeState_new S pat initiator kp pre)) = CipherState_default"
  by (auto simp: HandshakeState_new_def Let_def sym_initialize_def sym_of_def split: option.splits)

lemma fresh_symmetric:
  "hs_symmetric (HandshakeState_new S XX i kp pre) = hs_symmetric (HandshakeState_new S XX i' kp' pre')"
  "hs_symmetric (HandshakeState_new S IK True kp (Some (kp_pk kp'))) =
     hs_symmetric (HandshakeState_new S IK False kp' pre)"
  by (simp_all add: HandshakeState_new_def Let_def sym_of_def)

lemma fresh_fields:
  "hs_pattern (HandshakeState_new S pat i kp pre) = pat"
  "hs_initiator (HandshakeState_new S pat i kp pre) = i"
  "hs_step (HandshakeState_new S pat i kp pre) = 0"
  "hs_s_sk (HandshakeState_new S pat i kp pre) = kp_sk kp"
  "hs_s_pk (HandshakeState_new S pat i kp pre) = kp_pk kp"
  by (auto simp: HandshakeState_new_def Let_def sym_of_def split: option.splits)

lemma fresh_ik_initiator:
  "hs_rs (HandshakeState_new S IK True kp (Some rs)) = rs"
  "hs_rs_known (HandshakeState_new S IK True kp (Some rs))"
  by (simp_all add: HandshakeState_new_def Let_def sym_of_def)

lemma fresh_synced:
  assumes S: "run_laws S" and a: "own_keypair S (kp_sk a) (kp_pk a)" and b: "own_keypair S (kp_sk b) (kp_pk b)"
    and pre: "\<And>x. pre = Some x \<Longrightarrow> length x = 32" "\<And>x. pre' = Some x \<Longrightarrow> length x = 32"
    and pat: "pat = XX \<and> K = no_kn \<or> pat = IK \<and> pre = Some (kp_pk b) \<and> K = no_kn\<lparr>kn_rs := True\<rparr>"
  shows "turn_ok S K (implemented_pattern pat)
           (HandshakeState_new S pat True a pre) (HandshakeState_new S pat False b pre')"
proof -
  let ?w = "HandshakeState_new S pat True a pre" and ?r = "HandshakeState_new S pat False b pre'"
  note len = own_keypair_length [OF S a] own_keypair_length [OF S b]
  have wf: "wf_hs ?w" "wf_hs ?r" using S len pre by (auto intro: wf_keys_new simp: run_lawsD)
  have "hs_symmetric ?w = hs_symmetric ?r" using pat fresh_symmetric by (metis (no_types))
  moreover have "kn_rs K \<Longrightarrow> hs_rs ?w = kp_pk b \<and> hs_rs_known ?w"
    using pat by (auto simp: no_kn_def fresh_ik_initiator)
  ultimately have "synced S K ?w ?r"
    using wf a b pat by (auto simp: synced_def wf_hs_def fresh_fields fresh_cipher no_kn_def CipherState_default_def)
  moreover have "patterns_ready True K (implemented_pattern pat)"
    using pat by (auto simp: no_kn_def swap_kn_def)
  moreover have "wire_budget (implemented_pattern pat) \<le> nonces_left CipherState_default"
    by (cases pat) (simp_all add: wire_budget_def nonces_left_def CipherState_default_def)
  ultimately show ?thesis using wf by (simp add: turn_ok_def fresh_fields fresh_cipher)
qed

lemma split_mirrors:
  assumes "hs_symmetric r = hs_symmetric i" "hs_initiator i" "\<not> hs_initiator r"
  shows "tp_send (fst (hs_split S i)) = tp_recv (fst (hs_split S r)) \<and>
         tp_recv (fst (hs_split S i)) = tp_send (fst (hs_split S r))"
  using assms by (simp add: hs_split_eq Let_def)

lemma split_fresh:
  assumes "hash_ok S"
  shows "wf_cipher (tp_send (fst (hs_split S hs)))" "wf_cipher (tp_recv (fst (hs_split S hs)))"
    "cs_has_key (tp_send (fst (hs_split S hs)))" "cs_has_key (tp_recv (fst (hs_split S hs)))"
    "cs_n (tp_send (fst (hs_split S hs))) = 0" "cs_n (tp_recv (fst (hs_split S hs))) = 0"
  using assms by (simp_all add: hs_split_eq sym_split_eq Let_def wf_cipher_def initialize_key_def len_simps)

text \<open>What two parties agree on after a completed run.\<close>

definition agreed :: "'h sodium \<Rightarrow> Keypair \<Rightarrow> Keypair \<Rightarrow> HandshakeState \<Rightarrow> HandshakeState \<Rightarrow> bool" where
  "agreed S a b i r \<longleftrightarrow>
     is_complete i \<and> is_complete r \<and>
     ss_h (hs_symmetric i) = ss_h (hs_symmetric r) \<and>
     hs_rs i = kp_pk b \<and> hs_rs_known i \<and> hs_rs r = kp_pk a \<and> hs_rs_known r \<and>
     tp_send (fst (hs_split S i)) = tp_recv (fst (hs_split S r)) \<and>
     tp_recv (fst (hs_split S i)) = tp_send (fst (hs_split S r))"

lemma run_agrees:
  assumes S: "run_laws S" and a: "own_keypair S (kp_sk a) (kp_pk a)" and b: "own_keypair S (kp_sk b) (kp_pk b)"
    and pre: "\<And>x. pre = Some x \<Longrightarrow> length x = 32" "\<And>x. pre' = Some x \<Longrightarrow> length x = 32"
    and pat: "pat = XX \<and> K = no_kn \<or> pat = IK \<and> pre = Some (kp_pk b) \<and> K = no_kn\<lparr>kn_rs := True\<rparr>"
    and xs: "length xs = length (implemented_pattern pat)" "\<forall>x\<in>set xs. length (fst x) = 32"
  shows "\<exists>ms i r.
    run_handshake S xs (HandshakeState_new S pat True a pre) (HandshakeState_new S pat False b pre') =
      Returns (Some (ms, map snd xs, i, r)) \<and> agreed S a b i r \<and>
    map length ms = wire_sizes K (implemented_pattern pat) (map (\<lambda>x. length (snd x)) xs)"
proof -
  have "turn_ok S K (implemented_pattern pat)
      (HandshakeState_new S pat True a pre) (HandshakeState_new S pat False b pre')"
    by (rule fresh_synced [OF S a b _ _ pat]) (use pre in auto)
  from sim_run [OF S this xs] obtain ms i r
    where run: "run_handshake S xs (HandshakeState_new S pat True a pre)
                  (HandshakeState_new S pat False b pre') = Returns (Some (ms, map snd xs, i, r))"
      and post: "synced S (final_kn (implemented_pattern pat) K) i r" "is_complete i" "is_complete r"
      "map length ms = wire_sizes K (implemented_pattern pat) (map (\<lambda>x. length (snd x)) xs)"
      "hs_initiator i" "hs_s_pk i = kp_pk a" "hs_s_pk r = kp_pk b"
    by (auto simp: fresh_fields)
  have "kn_ws (final_kn (implemented_pattern pat) K)" "kn_rs (final_kn (implemented_pattern pat) K)"
    using pat by (auto simp: no_kn_def swap_kn_def)
  with post have "agreed S a b i r"
    using split_mirrors [OF synced_wfD(4) [OF post(1)] post(5), of S] synced_wfD [OF post(1)]
    by (simp add: agreed_def synced_def)
  with run post(4) show ?thesis by blast
qed

lemma own_keypair_generate:
  "length rnd = 32 \<Longrightarrow> own_keypair S (kp_sk (generate_keypair S rnd)) (kp_pk (generate_keypair S rnd))"
  by (simp add: own_keypair_def generate_keypair_def)

lemma toy_run_laws [simp]: "run_laws toy_sodium"
  by (simp add: run_laws_def)

section \<open>Properties\<close>

text \<open>
  C2. XX completes: for a lawful library, any two static key pairs, any random draws and any three
  payloads, the three messages of the XX handshake are all accepted, every payload arrives
  unchanged, both sides are complete with the same handshake hash, each has learned the other's
  static key, and the ciphers that \<open>split\<close> returns are mirrored: what one side sends with, the other
  receives with. The messages have 32, 96 and 64 bytes more than their payloads.
\<close>

theorem xx_handshake_agrees:
  assumes S: "run_laws S" and keys: "own_keypair S (kp_sk a) (kp_pk a)" "own_keypair S (kp_sk b) (kp_pk b)"
    and rnd: "length e1 = 32" "length e2 = 32" "length e3 = 32"
  shows "\<exists>m1 m2 m3 i r.
    run_handshake S [(e1, p1), (e2, p2), (e3, p3)]
      (HandshakeState_new S XX True a None) (HandshakeState_new S XX False b None) =
      Returns (Some ([m1, m2, m3], [p1, p2, p3], i, r)) \<and> agreed S a b i r \<and>
    length m1 = 32 + length p1 \<and> length m2 = 96 + length p2 \<and> length m3 = 64 + length p3"
proof -
  from run_agrees [OF S keys, of None None XX no_kn "[(e1, p1), (e2, p2), (e3, p3)]"] rnd
  obtain ms i r where
    run: "run_handshake S [(e1, p1), (e2, p2), (e3, p3)]
      (HandshakeState_new S XX True a None) (HandshakeState_new S XX False b None) =
      Returns (Some (ms, [p1, p2, p3], i, r))" "agreed S a b i r"
    and len: "map length ms = wire_sizes no_kn (implemented_pattern XX) [length p1, length p2, length p3]"
    by auto
  from len have "map length ms = [32 + length p1, 96 + length p2, 64 + length p3]"
    by (simp add: message_size_def no_kn_def swap_kn_def)
  then obtain m1 m2 m3 where "ms = [m1, m2, m3]"
    "length m1 = 32 + length p1" "length m2 = 96 + length p2" "length m3 = 64 + length p3"
    by (auto simp: map_eq_Cons_conv)
  with run show ?thesis by blast
qed

theorem xx_handshake_agrees_witness:
  "let a = generate_keypair toy_sodium (replicate 32 3); b = generate_keypair toy_sodium (replicate 32 5) in
   \<exists>m1 m2 m3 i r.
    run_handshake toy_sodium [(replicate 32 1, [7]), (replicate 32 2, []), (replicate 32 4, [8, 9])]
      (HandshakeState_new toy_sodium XX True a None) (HandshakeState_new toy_sodium XX False b None) =
      Returns (Some ([m1, m2, m3], [[7], [], [8, 9]], i, r)) \<and> agreed toy_sodium a b i r \<and>
    length m1 = 32 + length [7::byte] \<and> length m2 = 96 + length ([]::bytes) \<and> length m3 = 64 + length [8::byte, 9]"
  unfolding Let_def
  by (rule xx_handshake_agrees) (simp_all add: own_keypair_generate)

text \<open>
  C17. IK completes: with the responder's static key known to the initiator, the two messages of the
  IK handshake are accepted for all keys, draws and payloads, and the two sides agree as for XX.
  The messages have 96 and 48 bytes more than their payloads.
\<close>

theorem ik_handshake_agrees:
  assumes S: "run_laws S" and keys: "own_keypair S (kp_sk a) (kp_pk a)" "own_keypair S (kp_sk b) (kp_pk b)"
    and rnd: "length e1 = 32" "length e2 = 32"
  shows "\<exists>m1 m2 i r.
    run_handshake S [(e1, p1), (e2, p2)]
      (HandshakeState_new S IK True a (Some (kp_pk b))) (HandshakeState_new S IK False b None) =
      Returns (Some ([m1, m2], [p1, p2], i, r)) \<and> agreed S a b i r \<and>
    length m1 = 96 + length p1 \<and> length m2 = 48 + length p2"
proof -
  from run_agrees [OF S keys, of "Some (kp_pk b)" None IK "no_kn\<lparr>kn_rs := True\<rparr>" "[(e1, p1), (e2, p2)]"]
    rnd own_keypair_length [OF S keys(2)]
  obtain ms i r where
    run: "run_handshake S [(e1, p1), (e2, p2)]
      (HandshakeState_new S IK True a (Some (kp_pk b))) (HandshakeState_new S IK False b None) =
      Returns (Some (ms, [p1, p2], i, r))" "agreed S a b i r"
    and len: "map length ms = wire_sizes (no_kn\<lparr>kn_rs := True\<rparr>) (implemented_pattern IK) [length p1, length p2]"
    by auto
  from len have "map length ms = [96 + length p1, 48 + length p2]"
    by (simp add: message_size_def no_kn_def swap_kn_def)
  then obtain m1 m2 where "ms = [m1, m2]" "length m1 = 96 + length p1" "length m2 = 48 + length p2"
    by (auto simp: map_eq_Cons_conv)
  with run show ?thesis by blast
qed

theorem ik_handshake_agrees_witness:
  "let a = generate_keypair toy_sodium (replicate 32 3); b = generate_keypair toy_sodium (replicate 32 5) in
   \<exists>m1 m2 i r.
    run_handshake toy_sodium [(replicate 32 1, [7]), (replicate 32 2, [])]
      (HandshakeState_new toy_sodium IK True a (Some (kp_pk b))) (HandshakeState_new toy_sodium IK False b None) =
      Returns (Some ([m1, m2], [[7], []], i, r)) \<and> agreed toy_sodium a b i r \<and>
    length m1 = 96 + length [7::byte] \<and> length m2 = 48 + length ([]::bytes)"
  unfolding Let_def
  by (rule ik_handshake_agrees) (simp_all add: own_keypair_generate)

end
