(* ===== verification/Transport.thy ===== *)
theory Transport
  imports Cipher
begin

text \<open>
  \<^verbatim>\<open>transport.hpp\<close>: \<open>TransportState\<close>, the two ciphers of the transport phase with the rekey that
  advances both, and the rekey-at-threshold sequences with which \<^verbatim>\<open>noise.cpp\<close> drives it.
\<close>

section \<open>State and operations\<close>

abbreviation REKEY_INTERVAL :: "64 word" where
  "REKEY_INTERVAL \<equiv> push_bit 60 1"

record TransportState =
  ts_send :: CipherState
  ts_recv :: CipherState

definition TransportState_default :: TransportState where
  "TransportState_default = \<lparr>ts_send = CipherState_default, ts_recv = CipherState_default\<rparr>"

text \<open>The constructor moves its by-value arguments into the members.\<close>

definition TransportState_new :: "'h sodium \<Rightarrow> CipherState \<Rightarrow> CipherState \<Rightarrow> TransportState" where
  "TransportState_new S send recv =
     \<lparr>ts_send = fst (cipher_move S send), ts_recv = fst (cipher_move S recv)\<rparr>"

text \<open>The defaulted moves are member-wise, and so is the implicit destructor.\<close>

definition transport_move :: "'h sodium \<Rightarrow> TransportState \<Rightarrow> TransportState \<times> TransportState" where
  "transport_move S other =
     (let (send, send_husk) = cipher_move S (ts_send other);
          (recv, recv_husk) = cipher_move S (ts_recv other)
      in (\<lparr>ts_send = send, ts_recv = recv\<rparr>, \<lparr>ts_send = send_husk, ts_recv = recv_husk\<rparr>))"

definition transport_move_assign ::
  "'h sodium \<Rightarrow> TransportState \<Rightarrow> TransportState \<Rightarrow> TransportState \<times> TransportState" where
  "transport_move_assign S this other =
     (let (send, send_husk) = cipher_move_assign S (ts_send this) (ts_send other);
          (recv, recv_husk) = cipher_move_assign S (ts_recv this) (ts_recv other)
      in (\<lparr>ts_send = send, ts_recv = recv\<rparr>, \<lparr>ts_send = send_husk, ts_recv = recv_husk\<rparr>))"

definition transport_destroy :: "'h sodium \<Rightarrow> TransportState \<Rightarrow> TransportState" where
  "transport_destroy S t =
     \<lparr>ts_send = cipher_destroy S (ts_send t), ts_recv = cipher_destroy S (ts_recv t)\<rparr>"

definition transport_encrypt ::
  "'h sodium \<Rightarrow> bytes \<Rightarrow> TransportState \<Rightarrow> (bytes \<times> TransportState) outcome" where
  "transport_encrypt S plaintext t =
     bind_outcome (encrypt_with_ad S [] plaintext (ts_send t)) (\<lambda>(w, c).
       Returns (w, t\<lparr>ts_send := c\<rparr>))"

definition transport_decrypt ::
  "'h sodium \<Rightarrow> bytes \<Rightarrow> TransportState \<Rightarrow> (bytes option \<times> TransportState) outcome" where
  "transport_decrypt S ciphertext t =
     bind_outcome (decrypt_with_ad S [] ciphertext (ts_recv t)) (\<lambda>(p, c).
       Returns (p, t\<lparr>ts_recv := c\<rparr>))"

definition transport_rekey :: "'h sodium \<Rightarrow> TransportState \<Rightarrow> TransportState" where
  "transport_rekey S t =
     (let t = t\<lparr>ts_send := rekey S (ts_send t)\<rparr>;
          t = t\<lparr>ts_recv := rekey S (ts_recv t)\<rparr>;
          t = t\<lparr>ts_send := reset_nonce_to_zero (ts_send t)\<rparr>
      in t\<lparr>ts_recv := reset_nonce_to_zero (ts_recv t)\<rparr>)"

definition send_nonce :: "TransportState \<Rightarrow> 64 word" where
  "send_nonce t = cipher_nonce (ts_send t)"

definition recv_nonce :: "TransportState \<Rightarrow> 64 word" where
  "recv_nonce t = cipher_nonce (ts_recv t)"

definition needs_rekey :: "TransportState \<Rightarrow> bool" where
  "needs_rekey t \<longleftrightarrow> REKEY_INTERVAL \<le> send_nonce t \<or> REKEY_INTERVAL \<le> recv_nonce t"

definition test_set_nonces :: "64 word \<Rightarrow> 64 word \<Rightarrow> TransportState \<Rightarrow> TransportState" where
  "test_set_nonces send_n recv_n t =
     t\<lparr>ts_send := test_set_nonce send_n (ts_send t), ts_recv := test_set_nonce recv_n (ts_recv t)\<rparr>"

text \<open>
  The frame paths of \<^verbatim>\<open>noise_encrypt\<close> and \<^verbatim>\<open>noise_decrypt\<close> after their guards: the frame first, then a
  rekey when a counter has reached the threshold. A rejected frame returns before the check.
\<close>

definition encrypt_frame ::
  "'h sodium \<Rightarrow> bytes \<Rightarrow> TransportState \<Rightarrow> (bytes \<times> TransportState) outcome" where
  "encrypt_frame S plaintext t =
     bind_outcome (transport_encrypt S plaintext t) (\<lambda>(cipher, t).
       Returns (cipher, if needs_rekey t then transport_rekey S t else t))"

definition decrypt_frame ::
  "'h sodium \<Rightarrow> bytes \<Rightarrow> TransportState \<Rightarrow> (bytes option \<times> TransportState) outcome" where
  "decrypt_frame S ciphertext t =
     bind_outcome (transport_decrypt S ciphertext t) (\<lambda>(plain, t).
       case plain of
         None \<Rightarrow> Returns (None, t)
       | Some plain \<Rightarrow> Returns (Some plain, if needs_rekey t then transport_rekey S t else t))"

section \<open>Invariant\<close>

definition wf_transport :: "TransportState \<Rightarrow> bool" where
  "wf_transport t \<longleftrightarrow> wf_cipher (ts_send t) \<and> wf_cipher (ts_recv t)"

text \<open>Both counters below the threshold: the state between two frames.\<close>

definition settled :: "TransportState \<Rightarrow> bool" where
  "settled t \<longleftrightarrow> wf_transport t \<and> \<not> needs_rekey t"

text \<open>The peer's state: what one side sends with is what the other receives with.\<close>

definition peer_view :: "TransportState \<Rightarrow> TransportState" where
  "peer_view t = \<lparr>ts_send = ts_recv t, ts_recv = ts_send t\<rparr>"

lemma peer_view_sel [simp]:
  "ts_send (peer_view t) = ts_recv t" "ts_recv (peer_view t) = ts_send t"
  "peer_view (peer_view t) = t"
  by (simp_all add: peer_view_def)

lemma peer_view_update: "(peer_view t)\<lparr>ts_recv := c\<rparr> = peer_view (t\<lparr>ts_send := c\<rparr>)"
  by (simp add: peer_view_def)

lemma settled_peer_view [simp]: "settled (peer_view t) = settled t"
  by (auto simp: settled_def wf_transport_def needs_rekey_def send_nonce_def recv_nonce_def)

lemma needs_rekey_peer_view [simp]: "needs_rekey (peer_view t) = needs_rekey t"
  by (auto simp: needs_rekey_def send_nonce_def recv_nonce_def)

lemma rekey_nonce [simp]: "cs_n (rekey S c) = cs_n c" "cs_has_key (rekey S c) = cs_has_key c"
  by (simp_all add: rekey_def Let_def)

lemma transport_rekey_eq:
  "transport_rekey S t =
     t\<lparr>ts_send := reset_nonce_to_zero (rekey S (ts_send t)), ts_recv := reset_nonce_to_zero (rekey S (ts_recv t))\<rparr>"
  by (simp add: transport_rekey_def Let_def)

lemma transport_rekey_peer_view: "transport_rekey S (peer_view t) = peer_view (transport_rekey S t)"
  by (simp add: transport_rekey_eq peer_view_def)

lemma settled_transport_rekey: "aead_ok S \<Longrightarrow> wf_transport t \<Longrightarrow> settled (transport_rekey S t)"
  by (simp add: settled_def wf_transport_def transport_rekey_eq needs_rekey_def send_nonce_def
      recv_nonce_def wf_intros) (simp add: reset_nonce_to_zero_def word_le_def push_bit_eq_mult)

lemma settled_nonces:
  assumes "settled t"
  shows "cs_n (ts_send t) \<noteq> UINT64_MAX" "cs_n (ts_recv t) \<noteq> UINT64_MAX"
  using assms by (auto simp: settled_def needs_rekey_def send_nonce_def recv_nonce_def push_bit_eq_mult)

section \<open>One frame\<close>

lemma encrypt_frame_returns: "settled t \<Longrightarrow> \<exists>w t'. encrypt_frame S p t = Returns (w, t')"
  using settled_nonces(1) [of t]
  by (auto simp: encrypt_frame_def transport_encrypt_def encrypt_with_ad_def Let_def)

lemma decrypt_frame_returns:
  assumes "settled t"
  shows "\<exists>r t'. decrypt_frame S w t = Returns (r, t')"
proof (cases "decrypt_with_ad S [] w (ts_recv t)")
  case (Returns r)
  then show ?thesis
    by (cases "fst r") (auto simp: decrypt_frame_def transport_decrypt_def case_prod_unfold)
next
  case (Aborts e)
  with settled_nonces(2) [OF assms] show ?thesis by (simp add: decrypt_aborts_iff)
qed

lemma encrypt_frame_settled:
  assumes "aead_ok S" "settled t" "encrypt_frame S p t = Returns (w, t')"
  shows "settled t'"
proof -
  from assms(3) obtain c where c: "encrypt_with_ad S [] p (ts_send t) = Returns (w, c)"
    and t': "t' = (let u = t\<lparr>ts_send := c\<rparr> in if needs_rekey u then transport_rekey S u else u)"
    by (auto simp: encrypt_frame_def transport_encrypt_def)
  have "wf_transport (t\<lparr>ts_send := c\<rparr>)"
    using assms(2) wf_encrypt [OF _ c] by (simp add: settled_def wf_transport_def)
  then show ?thesis
    using settled_transport_rekey [OF assms(1)] by (simp add: t' Let_def settled_def)
qed

lemma decrypt_frame_settled:
  assumes "aead_ok S" "settled t" "decrypt_frame S w t = Returns (r, t')"
  shows "settled t'"
proof (cases r)
  case None
  with assms(3) have "t' = t"
    by (auto simp: decrypt_frame_def transport_decrypt_def dest: decrypt_failure_unchanged split: option.splits)
  with assms(2) show ?thesis by simp
next
  case (Some p)
  with assms(3) obtain c where c: "decrypt_with_ad S [] w (ts_recv t) = Returns (Some p, c)"
    and t': "t' = (let u = t\<lparr>ts_recv := c\<rparr> in if needs_rekey u then transport_rekey S u else u)"
    by (auto simp: decrypt_frame_def transport_decrypt_def split: option.splits)
  have "wf_transport (t\<lparr>ts_recv := c\<rparr>)"
    using assms(2) wf_decrypt [OF _ c] by (simp add: settled_def wf_transport_def)
  then show ?thesis
    using settled_transport_rekey [OF assms(1)] by (simp add: t' Let_def settled_def)
qed

lemma frame_delivered:
  assumes "aead_ok S" "settled t" "encrypt_frame S p t = Returns (w, t')"
  shows "decrypt_frame S w (peer_view t) = Returns (Some p, peer_view t')"
proof -
  from assms(3) obtain c where c: "encrypt_with_ad S [] p (ts_send t) = Returns (w, c)"
    and t': "t' = (let u = t\<lparr>ts_send := c\<rparr> in if needs_rekey u then transport_rekey S u else u)"
    by (auto simp: encrypt_frame_def transport_encrypt_def)
  have "decrypt_with_ad S [] w (ts_send t) = Returns (Some p, c)"
    using decrypt_encrypt [OF assms(1) _ c] assms(2) by (simp add: settled_def wf_transport_def)
  then show ?thesis
    by (simp add: decrypt_frame_def transport_decrypt_def t' Let_def transport_rekey_peer_view
        peer_view_update del: peer_view_sel(3))
qed

section \<open>Interfaces\<close>

text \<open>
  The frame paths form a link without a bound on the number of frames: the rekey resets the
  counter long before it is exhausted, so the budget is any number \<open>n\<close>.
\<close>

interpretation frames: live_link
  "\<lambda>t p. encrypt_frame S p t" "\<lambda>t w. decrypt_frame S w t"
  "\<lambda>a b. aead_ok S \<and> settled a \<and> b = peer_view a" "\<lambda>_. n"
  for S :: "'h sodium" and n
proof
  fix a b m w a'
  assume l: "aead_ok S \<and> settled a \<and> b = peer_view a" and e: "encrypt_frame S m a = Returns (w, a')"
  from l e frame_delivered [of S a m w a'] encrypt_frame_settled [of S a m w a']
  show "\<exists>b'. decrypt_frame S w b = Returns (Some m, b') \<and> aead_ok S \<and> settled a' \<and> b' = peer_view a'"
    by simp
next
  fix a b :: TransportState and m
  assume "aead_ok S \<and> settled a \<and> b = peer_view a"
  then show "\<exists>w a'. encrypt_frame S m a = Returns (w, a') \<and> n \<le> Suc n"
    using encrypt_frame_returns [of a S m] by simp
qed

interpretation transport_obj: zeroising_move
  "\<lambda>t. [cs_k (ts_send t), cs_k (ts_recv t)]"
  "transport_move S" "transport_move_assign S" "transport_destroy S" "erase_ok S"
  for S :: "'h sodium"
  by unfold_locales
    (auto simp: transport_move_def transport_move_assign_def transport_destroy_def Let_def
       cipher_move_def cipher_move_assign_def cipher_destroy_def zeroize_def all_zero_memzero)

section \<open>Conversations\<close>

text \<open>
  A conversation delivers each frame before the next one is sent, in either direction: the first
  component of an event tells whether the left side speaks.
\<close>

fun converse ::
  "'h sodium \<Rightarrow> (bool \<times> bytes) list \<Rightarrow> TransportState \<Rightarrow> TransportState \<Rightarrow>
     (bytes list \<times> TransportState \<times> TransportState) option outcome" where
  "converse S [] a b = Returns (Some ([], a, b))"
| "converse S ((left, m) # xs) a b =
     bind_outcome (encrypt_frame S m (if left then a else b)) (\<lambda>(w, sender).
       bind_outcome (decrypt_frame S w (if left then b else a)) (\<lambda>(p, receiver).
         case p of
           None \<Rightarrow> Returns None
         | Some p \<Rightarrow>
             bind_outcome (converse S xs (if left then sender else receiver) (if left then receiver else sender))
               (\<lambda>r. Returns (map_option (\<lambda>(ps, a', b'). (p # ps, a', b')) r))))"

lemma converse_delivers:
  assumes S: "aead_ok S"
  shows "settled a \<Longrightarrow>
    \<exists>a'. converse S xs a (peer_view a) = Returns (Some (map snd xs, a', peer_view a')) \<and> settled a'"
proof (induction xs arbitrary: a)
  case Nil
  then show ?case by simp
next
  case (Cons x xs)
  obtain left m where x: "x = (left, m)" by fastforce
  let ?s = "if left then a else peer_view a"
  have s: "settled ?s" using Cons.prems by simp
  from encrypt_frame_returns [OF s, of S m] obtain w s'
    where e: "encrypt_frame S m ?s = Returns (w, s')" by blast
  note d = frame_delivered [OF S s e]
  have s': "settled s'" by (rule encrypt_frame_settled [OF S s e])
  show ?case
  proof (cases left)
    case True
    with Cons.IH [OF s'] e d show ?thesis by (auto simp: x)
  next
    case False
    with Cons.IH [of "peer_view s'"] s' e d show ?thesis by (auto simp: x)
  qed
qed

section \<open>Properties\<close>

text \<open>
  C9. Unbounded lock-step conversations: two mirrored transport states with counters below the
  threshold deliver every sequence of frames, of any length and in any order of speakers, when
  each frame arrives before the next is sent. No frame is rejected or changed, no counter guard
  fires, and after the conversation the states are mirrored again with counters below \<open>2^60\<close>: the
  automatic rekey happens on both sides at the same frame.
\<close>

theorem conversation_never_desynchronises:
  assumes "aead_ok S" and "wf_transport a" and "\<not> needs_rekey a" and "b = peer_view a"
  shows "\<exists>a' b'. converse S xs a b = Returns (Some (map snd xs, a', b')) \<and>
           b' = peer_view a' \<and> wf_transport a' \<and>
           send_nonce a' < REKEY_INTERVAL \<and> recv_nonce a' < REKEY_INTERVAL"
  using converse_delivers [OF assms(1), of a xs] assms(2-)
  by (auto simp: settled_def needs_rekey_def not_le)

theorem conversation_never_desynchronises_witness:
  "let a = test_set_nonces 0xFFFFFFFFFFFFFFF 7
             (TransportState_new toy_sodium (initialize_key (replicate 32 3) CipherState_default)
               (initialize_key (replicate 32 5) CipherState_default));
       xs = [(True, [1]), (False, [2, 3]), (True, [])] in
   \<exists>a' b'. converse toy_sodium xs a (peer_view a) = Returns (Some ([[1], [2, 3], []], a', b')) \<and>
     b' = peer_view a' \<and> wf_transport a' \<and>
     send_nonce a' < REKEY_INTERVAL \<and> recv_nonce a' < REKEY_INTERVAL"
proof -
  let ?a = "test_set_nonces 0xFFFFFFFFFFFFFFF 7
             (TransportState_new toy_sodium (initialize_key (replicate 32 3) CipherState_default)
               (initialize_key (replicate 32 5) CipherState_default))"
  have "wf_transport ?a" "\<not> needs_rekey ?a"
    by (simp_all add: wf_transport_def wf_cipher_def needs_rekey_def send_nonce_def recv_nonce_def
        test_set_nonces_def test_set_nonce_def TransportState_new_def cipher_move_def initialize_key_def
        push_bit_eq_mult)
  from conversation_never_desynchronises [OF toy_aead_ok this refl, of "[(True, [1]), (False, [2, 3]), (True, [])]"]
  show ?thesis by (simp add: Let_def)
qed

text \<open>
  C25. Streams in flight: the sender may also run ahead of the receiver by any number of frames,
  across any number of rekeys, as long as the receiver does not send: every frame is delivered
  in order and the two states end mirrored.
\<close>

theorem one_way_stream_survives_rekeys:
  assumes "aead_ok S" and "wf_transport a" and "\<not> needs_rekey a"
  shows "\<exists>ws a'. send_all (\<lambda>t p. encrypt_frame S p t) a ps = Returns (ws, a') \<and>
           recv_all (\<lambda>t w. decrypt_frame S w t) (peer_view a) ws = Returns (Some ps, peer_view a')"
  using frames.stream_total [of S a "peer_view a" ps "length ps"] assms
  by (auto simp: settled_def)

theorem one_way_stream_survives_rekeys_witness:
  "let a = test_set_nonces 0xFFFFFFFFFFFFFFF 0
             (TransportState_new toy_sodium (initialize_key (replicate 32 3) CipherState_default)
               (initialize_key (replicate 32 5) CipherState_default)) in
   \<exists>ws a'. send_all (\<lambda>t p. encrypt_frame toy_sodium p t) a [[1], [2]] = Returns (ws, a') \<and>
     recv_all (\<lambda>t w. decrypt_frame toy_sodium w t) (peer_view a) ws = Returns (Some [[1], [2]], peer_view a')"
  unfolding Let_def
  by (rule one_way_stream_survives_rekeys)
    (simp_all add: wf_transport_def wf_cipher_def needs_rekey_def send_nonce_def recv_nonce_def
        test_set_nonces_def test_set_nonce_def TransportState_new_def cipher_move_def initialize_key_def
        push_bit_eq_mult)

text \<open>
  C27. Crossing frames: the guarantee does not extend to frames that cross on the wire at the
  threshold. There is a lawful library and there are mirrored, well-formed states, one frame below
  the threshold, such that after the left side sends a frame (and rekeys both of its directions), a
  frame that the right side sent before it saw the left one is rejected by the left side.
\<close>

theorem crossing_frames_break_the_rekey:
  "\<exists>(S :: bytes sodium) a w1 a1 w2 b1.
     aead_ok S \<and> aead_exact S \<and> wf_transport a \<and> \<not> needs_rekey a \<and>
     encrypt_frame S [1] a = Returns (w1, a1) \<and>
     encrypt_frame S [2] (peer_view a) = Returns (w2, b1) \<and>
     decrypt_frame S w2 a1 = Returns (None, a1)"
proof -
  let ?S = toy_sodium
  let ?c = "initialize_key (1 # zeros 31) CipherState_default"
  let ?a = "test_set_nonces 0xFFFFFFFFFFFFFFF 0 (TransportState_new ?S ?c ?c)"
  have wf: "wf_transport ?a" "\<not> needs_rekey ?a"
    by (simp_all add: wf_transport_def wf_cipher_def needs_rekey_def send_nonce_def recv_nonce_def
        test_set_nonces_def test_set_nonce_def TransportState_new_def cipher_move_def initialize_key_def
        push_bit_eq_mult)
  have left: "\<exists>w1 a1. encrypt_frame ?S [1] ?a = Returns (w1, a1) \<and> cs_k (ts_recv a1) = zeros 32 \<and>
      cs_has_key (ts_recv a1) \<and> cs_n (ts_recv a1) = 0"
    by (simp add: encrypt_frame_def transport_encrypt_def encrypt_with_ad_def test_set_nonces_def
        test_set_nonce_def TransportState_new_def cipher_move_def initialize_key_def needs_rekey_def
        send_nonce_def recv_nonce_def transport_rekey_eq rekey_def reset_nonce_to_zero_def
        toy_sodium_def memcpy_def push_bit_eq_mult Let_def)
  have right: "\<exists>b1. encrypt_frame ?S [2] (peer_view ?a) =
      Returns (2 # toy_tag [] (encode_nonce 0) (1 # zeros 31), b1)"
    by (simp add: encrypt_frame_def transport_encrypt_def encrypt_with_ad_def test_set_nonces_def
        test_set_nonce_def TransportState_new_def cipher_move_def initialize_key_def
        toy_sodium_def Let_def)
  have "decrypt_frame ?S (2 # toy_tag [] (encode_nonce 0) (1 # zeros 31)) t = Returns (None, t)"
    if "cs_k (ts_recv t) = zeros 32" "cs_has_key (ts_recv t)" "cs_n (ts_recv t) = 0" for t
    using that
    by (simp add: decrypt_frame_def transport_decrypt_def decrypt_with_ad_def toy_sodium_def
        toy_open_def Let_def) (simp add: toy_tag_def sum_list_replicate)
  with wf left right show ?thesis by (metis toy_aead_ok toy_aead_exact)
qed

text \<open>
  C28. The rekey of a transport state: both counters return to zero, both keys become the first 32
  bytes of the encryption of 32 zero bytes under the reserved nonce \<open>2^64 - 1\<close>, and the rekeys of two
  mirrored states leave them mirrored; unkeyed ciphers keep their key.
\<close>

theorem transport_rekey_effect:
  assumes "aead_ok S" and "wf_transport t"
  shows "let t' = transport_rekey S t;
             next_key = (\<lambda>c. if cs_has_key c
               then take 32 (crypto_aead_encrypt S (zeros 32) [] (encode_nonce UINT64_MAX) (cs_k c)) else cs_k c) in
         send_nonce t' = 0 \<and> recv_nonce t' = 0 \<and>
         cs_k (ts_send t') = next_key (ts_send t) \<and> cs_k (ts_recv t') = next_key (ts_recv t) \<and>
         wf_transport t' \<and> \<not> needs_rekey t' \<and>
         transport_rekey S (peer_view t) = peer_view t'"
  using settled_transport_rekey [OF assms] assms
  by (simp add: Let_def transport_rekey_peer_view settled_def send_nonce_def recv_nonce_def)
    (simp add: transport_rekey_eq reset_nonce_to_zero_def rekey_def Let_def memcpy_def
      wf_transport_def wf_cipher_def)

theorem transport_rekey_effect_witness:
  "let t = TransportState_new toy_sodium (initialize_key (replicate 32 3) CipherState_default) CipherState_default in
   send_nonce (transport_rekey toy_sodium t) = 0 \<and> cs_k (ts_recv (transport_rekey toy_sodium t)) = zeros 32 \<and>
   transport_rekey toy_sodium (peer_view t) = peer_view (transport_rekey toy_sodium t)"
proof -
  let ?t = "TransportState_new toy_sodium (initialize_key (replicate 32 3) CipherState_default) CipherState_default"
  have "wf_transport ?t"
    by (simp add: wf_transport_def wf_cipher_def TransportState_new_def cipher_move_def initialize_key_def
        CipherState_default_def)
  moreover have "ts_recv ?t = CipherState_default" by (simp add: TransportState_new_def cipher_move_def)
  ultimately show ?thesis using transport_rekey_effect [OF toy_aead_ok, of ?t]
    by (simp add: Let_def CipherState_default_def)
qed

end
