(* ===== verification/Provider.thy ===== *)
theory Provider
  imports Handshake_Run Transport
begin

text \<open>
  \<^verbatim>\<open>noise.cpp\<close>, the session and the entries of the provider vtable. A pointer that may be null is an
  \<open>option\<close>; an out-parameter is an argument with its old contents and a component of the result
  with its new contents. Whether \<^verbatim>\<open>malloc\<close> or the non-throwing \<^verbatim>\<open>new\<close> succeed is an argument of the
  entries that allocate. The result codes, roles and structures of the SDK appear with the
  constructors and fields the source uses.
\<close>

section \<open>SDK data\<close>

datatype gn_result =
  GN_OK | GN_ERR_NULL_ARG | GN_ERR_OUT_OF_MEMORY | GN_ERR_INVALID_ENVELOPE
| GN_ERR_INVALID_STATE | GN_ERR_NOT_IMPLEMENTED | GN_ERR_LIMIT_REACHED | GN_ERR_NOT_FOUND

datatype gn_handshake_role = GN_ROLE_INITIATOR | GN_ROLE_RESPONDER

abbreviation GN_CIPHER_KEY_BYTES :: nat where
  "GN_CIPHER_KEY_BYTES \<equiv> 32"

abbreviation GN_HASH_BYTES :: nat where
  "GN_HASH_BYTES \<equiv> 32"

abbreviation GN_PUBLIC_KEY_BYTES :: nat where
  "GN_PUBLIC_KEY_BYTES \<equiv> 32"

datatype free_function = FreeBuffer

record gn_secure_buffer =
  sb_bytes :: "bytes option"
  sb_size :: nat
  sb_free_user_data :: "nat option"
  sb_free_fn :: "free_function option"

record gn_handshake_keys =
  hk_api_size :: nat
  hk_send_cipher_key :: bytes
  hk_recv_cipher_key :: bytes
  hk_initial_send_nonce :: "64 word"
  hk_initial_recv_nonce :: "64 word"
  hk_handshake_hash :: bytes
  hk_peer_static_pk :: bytes

section \<open>Sessions\<close>

record NoiseSession =
  ns_handshake :: HandshakeState
  ns_transport :: TransportState
  ns_role :: gn_handshake_role
  ns_split_done :: bool
  ns_keys_exported :: bool
  ns_local_pk :: bytes
  ns_peer_pk_present :: bool
  ns_peer_x25519_pk :: bytes

definition NoiseSession_new ::
  "'h sodium \<Rightarrow> Pattern \<Rightarrow> bool \<Rightarrow> Keypair \<Rightarrow> bytes option \<Rightarrow> NoiseSession" where
  "NoiseSession_new S pattern initiator static_keypair pre_known_rs =
     \<lparr>ns_handshake = HandshakeState_new S pattern initiator static_keypair pre_known_rs,
      ns_transport = TransportState_default,
      ns_role = (if initiator then GN_ROLE_INITIATOR else GN_ROLE_RESPONDER),
      ns_split_done = False, ns_keys_exported = False,
      ns_local_pk = kp_pk static_keypair,
      ns_peer_pk_present = False, ns_peer_x25519_pk = zeros 32\<rparr>"

definition ed25519_to_x25519 :: "'h sodium \<Rightarrow> bytes \<Rightarrow> bytes \<Rightarrow> Keypair option" where
  "ed25519_to_x25519 S ed_sk ed_pk =
     (case crypto_sign_ed25519_sk_to_curve25519 S ed_sk of
        None \<Rightarrow> None
      | Some sk \<Rightarrow>
          (case crypto_sign_ed25519_pk_to_curve25519 S ed_pk of
             None \<Rightarrow> None
           | Some pk \<Rightarrow> Some \<lparr>kp_pk = pk, kp_sk = sk\<rparr>))"

definition emit_buffer ::
  "bool \<Rightarrow> bytes \<Rightarrow> gn_secure_buffer option \<Rightarrow> gn_result \<times> gn_secure_buffer option" where
  "emit_buffer malloc_ok src out =
     (case out of
        None \<Rightarrow> (GN_ERR_NULL_ARG, None)
      | Some out \<Rightarrow>
          if src = [] then
            (GN_OK, Some (out\<lparr>sb_bytes := None, sb_size := 0, sb_free_user_data := None,
                              sb_free_fn := None\<rparr>))
          else if \<not> malloc_ok then (GN_ERR_OUT_OF_MEMORY, Some out)
          else
            (GN_OK, Some (out\<lparr>sb_bytes := Some src, sb_size := length src,
                              sb_free_user_data := None, sb_free_fn := Some FreeBuffer\<rparr>)))"

section \<open>Handshake entries\<close>

text \<open>
  \<open>out_state\<close> is the out-parameter: null, or the variable that receives the session pointer.
\<close>

definition noise_handshake_open_impl ::
  "'h sodium \<Rightarrow> bool \<Rightarrow> Pattern \<Rightarrow> gn_handshake_role \<Rightarrow> bytes option \<Rightarrow> bytes option \<Rightarrow> bytes option \<Rightarrow>
     NoiseSession option option \<Rightarrow> gn_result \<times> NoiseSession option option" where
  "noise_handshake_open_impl S new_ok pattern role local_static_sk local_static_pk remote_static_pk out_state =
     (if out_state = None \<or> local_static_sk = None \<or> local_static_pk = None
      then (GN_ERR_NULL_ARG, out_state)
      else
        (case ed25519_to_x25519 S (the local_static_sk) (the local_static_pk) of
           None \<Rightarrow> (GN_ERR_INVALID_ENVELOPE, out_state)
         | Some static_kp \<Rightarrow>
             (let allocate = (\<lambda>rs_x25519.
                if \<not> new_ok then (GN_ERR_OUT_OF_MEMORY, out_state)
                else (GN_OK, Some (Some (NoiseSession_new S pattern (role = GN_ROLE_INITIATOR)
                                            static_kp rs_x25519))))
              in if pattern = IK \<and> role = GN_ROLE_INITIATOR then
                   (case remote_static_pk of
                      None \<Rightarrow> (GN_ERR_NULL_ARG, out_state)
                    | Some remote \<Rightarrow>
                        (case crypto_sign_ed25519_pk_to_curve25519 S remote of
                           None \<Rightarrow> (GN_ERR_INVALID_ENVELOPE, out_state)
                         | Some rs \<Rightarrow> allocate (Some rs)))
                 else allocate None)))"

definition noise_handshake_open_xx where
  "noise_handshake_open_xx S new_ok = noise_handshake_open_impl S new_ok XX"

definition noise_handshake_open_ik where
  "noise_handshake_open_ik S new_ok = noise_handshake_open_impl S new_ok IK"

text \<open>
  One call drives at most one read and one write. The pointer and size of the inbound bytes are
  one list; \<open>rnd\<close> is what the ephemeral key generation draws if the call writes.
\<close>

definition handshake_write_turn ::
  "'h sodium \<Rightarrow> bytes \<Rightarrow> bool \<Rightarrow> NoiseSession \<Rightarrow> gn_secure_buffer \<Rightarrow>
     (gn_result \<times> NoiseSession \<times> gn_secure_buffer) outcome" where
  "handshake_write_turn S rnd malloc_ok s out_message =
     (let initiator_writes_next = (hs_step_count (ns_handshake s) mod 2 = 0);
          writer_turn = (initiator_writes_next = (ns_role s = GN_ROLE_INITIATOR))
      in if \<not> writer_turn then Returns (GN_OK, s, out_message)
         else
           bind_outcome (write_message S rnd [] (ns_handshake s)) (\<lambda>(produced, hs).
             let s = s\<lparr>ns_handshake := hs\<rparr> in
             case produced of
               None \<Rightarrow> Returns (GN_ERR_INVALID_ENVELOPE, s, out_message)
             | Some produced \<Rightarrow>
                 (let (rc, out) = emit_buffer malloc_ok produced (Some out_message)
                  in Returns (rc, s, the out))))"

definition noise_handshake_step ::
  "'h sodium \<Rightarrow> bytes \<Rightarrow> bool \<Rightarrow> NoiseSession option \<Rightarrow> bytes \<Rightarrow> gn_secure_buffer option \<Rightarrow>
     (gn_result \<times> NoiseSession option \<times> gn_secure_buffer option) outcome" where
  "noise_handshake_step S rnd malloc_ok state incoming out_message =
     (case (state, out_message) of
        (Some s, Some out) \<Rightarrow>
          (let out = out\<lparr>sb_bytes := None, sb_size := 0, sb_free_user_data := None, sb_free_fn := None\<rparr>;
               write_turn = (\<lambda>s. bind_outcome (handshake_write_turn S rnd malloc_ok s out)
                 (\<lambda>(rc, s, out). Returns (rc, Some s, Some out)))
           in if incoming \<noteq> [] then
                bind_outcome (read_message S incoming (ns_handshake s)) (\<lambda>(plain, hs).
                  let s = s\<lparr>ns_handshake := hs\<rparr> in
                  if plain = None then Returns (GN_ERR_INVALID_ENVELOPE, Some s, Some out)
                  else if is_complete (ns_handshake s) then Returns (GN_OK, Some s, Some out)
                  else write_turn s)
              else write_turn s)
      | _ \<Rightarrow> Returns (GN_ERR_NULL_ARG, state, out_message))"

definition noise_handshake_complete :: "NoiseSession option \<Rightarrow> int" where
  "noise_handshake_complete state =
     (case state of None \<Rightarrow> 0 | Some s \<Rightarrow> if is_complete (ns_handshake s) then 1 else 0)"

section \<open>Key export\<close>

text \<open>
  The export in the order of its visible effects: the keys are split off and copied out, then
  \<open>split_done\<close> is set, then \<open>keys_exported\<close>. \<open>sizeof_keys\<close> is the size of the SDK structure.
\<close>

definition key_for_export :: "CipherState \<Rightarrow> bytes" where
  "key_for_export c = cs_k c"

definition export_keys :: "'h sodium \<Rightarrow> nat \<Rightarrow> NoiseSession \<Rightarrow> gn_handshake_keys \<times> NoiseSession" where
  "export_keys S sizeof_keys s =
     (let (pair, hs) = hs_split S (ns_handshake s);
          s = s\<lparr>ns_handshake := hs\<rparr>;
          out_keys = \<lparr>hk_api_size = 0, hk_send_cipher_key = zeros GN_CIPHER_KEY_BYTES,
                      hk_recv_cipher_key = zeros GN_CIPHER_KEY_BYTES,
                      hk_initial_send_nonce = 0, hk_initial_recv_nonce = 0,
                      hk_handshake_hash = zeros GN_HASH_BYTES, hk_peer_static_pk = zeros GN_PUBLIC_KEY_BYTES\<rparr>;
          out_keys = out_keys\<lparr>hk_api_size := sizeof_keys\<rparr>;
          send_k = key_for_export (tp_send pair);
          recv_k = key_for_export (tp_recv pair);
          out_keys = out_keys\<lparr>
            hk_send_cipher_key := memcpy (hk_send_cipher_key out_keys) send_k GN_CIPHER_KEY_BYTES,
            hk_recv_cipher_key := memcpy (hk_recv_cipher_key out_keys) recv_k GN_CIPHER_KEY_BYTES\<rparr>;
          out_keys = out_keys\<lparr>hk_initial_send_nonce := 0, hk_initial_recv_nonce := 0\<rparr>;
          s = s\<lparr>ns_peer_x25519_pk := peer_static_public_key (ns_handshake s)\<rparr>;
          out_keys = out_keys\<lparr>hk_peer_static_pk :=
            memcpy (hk_peer_static_pk out_keys) (ns_peer_x25519_pk s) GN_PUBLIC_KEY_BYTES\<rparr>;
          h = hs_handshake_hash (ns_handshake s)
      in (out_keys\<lparr>hk_handshake_hash := memcpy (hk_handshake_hash out_keys) h GN_HASH_BYTES\<rparr>, s))"

definition publish_split :: "NoiseSession \<Rightarrow> NoiseSession" where
  "publish_split s = s\<lparr>ns_split_done := True\<rparr>"

definition publish_exported :: "NoiseSession \<Rightarrow> NoiseSession" where
  "publish_exported s = s\<lparr>ns_keys_exported := True\<rparr>"

definition noise_export_transport_keys ::
  "'h sodium \<Rightarrow> nat \<Rightarrow> NoiseSession option \<Rightarrow> gn_handshake_keys option \<Rightarrow>
     gn_result \<times> NoiseSession option \<times> gn_handshake_keys option" where
  "noise_export_transport_keys S sizeof_keys state out_keys =
     (case (state, out_keys) of
        (Some s, Some keys) \<Rightarrow>
          if \<not> is_complete (ns_handshake s) then (GN_ERR_INVALID_STATE, state, out_keys)
          else if ns_split_done s then (GN_ERR_INVALID_STATE, state, out_keys)
          else
            (let (keys, s) = export_keys S sizeof_keys s;
                 s = publish_split s;
                 s = publish_exported s
             in (GN_OK, Some s, Some keys))
      | _ \<Rightarrow> (GN_ERR_NULL_ARG, state, out_keys))"

section \<open>Transport entries\<close>

definition noise_encrypt ::
  "'h sodium \<Rightarrow> bool \<Rightarrow> NoiseSession option \<Rightarrow> bytes \<Rightarrow> gn_secure_buffer option \<Rightarrow>
     (gn_result \<times> NoiseSession option \<times> gn_secure_buffer option) outcome" where
  "noise_encrypt S malloc_ok state plaintext out =
     (case state of
        None \<Rightarrow> Returns (GN_ERR_NULL_ARG, state, out)
      | Some s \<Rightarrow>
          if \<not> ns_split_done s then Returns (GN_ERR_INVALID_STATE, state, out)
          else if ns_keys_exported s then Returns (GN_ERR_INVALID_STATE, state, out)
          else
            bind_outcome (encrypt_frame S plaintext (ns_transport s)) (\<lambda>(cipher, t).
              let (rc, out) = emit_buffer malloc_ok cipher out
              in Returns (rc, Some (s\<lparr>ns_transport := t\<rparr>), out)))"

definition noise_decrypt ::
  "'h sodium \<Rightarrow> bool \<Rightarrow> NoiseSession option \<Rightarrow> bytes \<Rightarrow> gn_secure_buffer option \<Rightarrow>
     (gn_result \<times> NoiseSession option \<times> gn_secure_buffer option) outcome" where
  "noise_decrypt S malloc_ok state ciphertext out =
     (case state of
        None \<Rightarrow> Returns (GN_ERR_NULL_ARG, state, out)
      | Some s \<Rightarrow>
          if \<not> ns_split_done s then Returns (GN_ERR_INVALID_STATE, state, out)
          else if ns_keys_exported s then Returns (GN_ERR_INVALID_STATE, state, out)
          else
            bind_outcome (decrypt_frame S ciphertext (ns_transport s)) (\<lambda>(plain, t).
              let s = s\<lparr>ns_transport := t\<rparr> in
              case plain of
                None \<Rightarrow> Returns (GN_ERR_INVALID_ENVELOPE, Some s, out)
              | Some plain \<Rightarrow>
                  (let (rc, out) = emit_buffer malloc_ok plain out
                   in Returns (rc, Some s, out))))"

definition noise_rekey :: "'h sodium \<Rightarrow> NoiseSession option \<Rightarrow> gn_result \<times> NoiseSession option" where
  "noise_rekey S state =
     (case state of
        None \<Rightarrow> (GN_ERR_NULL_ARG, state)
      | Some s \<Rightarrow>
          if \<not> ns_split_done s then (GN_ERR_INVALID_STATE, state)
          else if ns_keys_exported s then (GN_ERR_INVALID_STATE, state)
          else (GN_OK, Some (s\<lparr>ns_transport := transport_rekey S (ns_transport s)\<rparr>)))"

text \<open>
  \<^verbatim>\<open>delete\<close> runs the destructors of the members in reverse order of declaration; the result is what
  is left in the freed memory. Deleting a null pointer has no effect.
\<close>

definition noise_handshake_close :: "'h sodium \<Rightarrow> NoiseSession option \<Rightarrow> NoiseSession option" where
  "noise_handshake_close S state =
     map_option (\<lambda>s. s\<lparr>ns_transport := transport_destroy S (ns_transport s),
                       ns_handshake := hs_destroy S (ns_handshake s)\<rparr>) state"

end
