(* ===== verification/Session.thy ===== *)
theory Session
  imports Provider
begin

text \<open>
  What the entries of the provider guarantee for a session: which calls succeed in which state,
  the invariant of every session a host can reach, the keys two peers export after a handshake,
  and the interleaving of a key export with a concurrent encryption.
\<close>

section \<open>One call\<close>

abbreviation empty_buffer :: gn_secure_buffer where
  "empty_buffer \<equiv> \<lparr>sb_bytes = None, sb_size = 0, sb_free_user_data = None, sb_free_fn = None\<rparr>"

abbreviation filled_buffer :: "bytes \<Rightarrow> gn_secure_buffer" where
  "filled_buffer m \<equiv>
     \<lparr>sb_bytes = Some m, sb_size = length m, sb_free_user_data = None, sb_free_fn = Some FreeBuffer\<rparr>"

lemma emit_buffer_cases:
  "emit_buffer malloc_ok src (Some out) =
     (if src = [] then (GN_OK, Some empty_buffer)
      else if malloc_ok then (GN_OK, Some (filled_buffer src)) else (GN_ERR_OUT_OF_MEMORY, Some out))"
  by (simp add: emit_buffer_def)

definition on_turn :: "NoiseSession \<Rightarrow> bool" where
  "on_turn s \<longleftrightarrow> even (hs_step (ns_handshake s)) = (ns_role s = GN_ROLE_INITIATOR)"

lemma handshake_write_turn_eq:
  "handshake_write_turn S rnd malloc_ok s out =
     (if \<not> on_turn s then Returns (GN_OK, s, out)
      else bind_outcome (write_message S rnd [] (ns_handshake s)) (\<lambda>(m, hs).
        Returns (case m of
          None \<Rightarrow> (GN_ERR_INVALID_ENVELOPE, s\<lparr>ns_handshake := hs\<rparr>, out)
        | Some m \<Rightarrow>
            if m = [] then (GN_OK, s\<lparr>ns_handshake := hs\<rparr>, empty_buffer)
            else if malloc_ok then (GN_OK, s\<lparr>ns_handshake := hs\<rparr>, filled_buffer m)
            else (GN_ERR_OUT_OF_MEMORY, s\<lparr>ns_handshake := hs\<rparr>, out))))"
proof -
  have "(hs_step (ns_handshake s) mod 2 = 0) = even (hs_step (ns_handshake s))" by presburger
  then show ?thesis
    by (auto simp: handshake_write_turn_def on_turn_def Let_def emit_buffer_cases fun_eq_iff
        intro!: arg_cong2 [where f = bind_outcome] split: option.splits)
qed

lemma step_writes:
  assumes "on_turn s" "write_message S rnd [] (ns_handshake s) = Returns (Some m, hs)" "m \<noteq> []"
  shows "noise_handshake_step S rnd True (Some s) [] (Some out) =
    Returns (GN_OK, Some (s\<lparr>ns_handshake := hs\<rparr>), Some (filled_buffer m))"
  using assms by (simp add: noise_handshake_step_def handshake_write_turn_eq Let_def)

lemma step_reads_and_writes:
  assumes "read_message S inc (ns_handshake s) = Returns (Some p, hs)" "inc \<noteq> []" "\<not> is_complete hs"
    and "on_turn (s\<lparr>ns_handshake := hs\<rparr>)" "write_message S rnd [] hs = Returns (Some m, hs')" "m \<noteq> []"
  shows "noise_handshake_step S rnd True (Some s) inc (Some out) =
    Returns (GN_OK, Some (s\<lparr>ns_handshake := hs'\<rparr>), Some (filled_buffer m))"
  using assms by (simp add: noise_handshake_step_def handshake_write_turn_eq Let_def)

lemma step_reads_last:
  assumes "read_message S inc (ns_handshake s) = Returns (Some p, hs)" "inc \<noteq> []" "is_complete hs"
  shows "noise_handshake_step S rnd malloc_ok (Some s) inc (Some out) =
    Returns (GN_OK, Some (s\<lparr>ns_handshake := hs\<rparr>), Some empty_buffer)"
  using assms by (simp add: noise_handshake_step_def Let_def)

text \<open>What a call of \<open>noise_handshake_step\<close> does to the session, whatever it returns.\<close>

lemma handshake_step_calls:
  assumes "noise_handshake_step S rnd malloc_ok (Some s) inc out = Returns (rc, s', out')"
    and "length rnd = 32"
  shows "\<exists>hs. s' = Some (s\<lparr>ns_handshake := hs\<rparr>) \<and> (hs_call S)\<^sup>*\<^sup>* (ns_handshake s) hs"
proof -
  have turn: "\<exists>hs. t' = t\<lparr>ns_handshake := hs\<rparr> \<and> (hs_call S)\<^sup>*\<^sup>* (ns_handshake t) hs"
    if "handshake_write_turn S rnd malloc_ok t o1 = Returns (c, t', o2)" for t c t' o1 o2
  proof (cases "on_turn t")
    case True
    with that obtain m hs where w: "write_message S rnd [] (ns_handshake t) = Returns (m, hs)"
      and t': "t' = t\<lparr>ns_handshake := hs\<rparr>"
      by (auto simp: handshake_write_turn_eq split: option.splits if_splits)
    from hs_write [OF assms(2) w] t' show ?thesis by blast
  next
    case False
    with that show ?thesis by (auto simp: handshake_write_turn_eq intro!: exI [of _ "ns_handshake t"])
  qed
  show ?thesis
  proof (cases "out = None \<or> inc = []")
    case True
    with assms(1) show ?thesis
      by (auto simp: noise_handshake_step_def Let_def dest!: turn intro: exI [of _ "ns_handshake s"]
          split: option.splits)
  next
    case False
    with assms(1) obtain p hs where r: "read_message S inc (ns_handshake s) = Returns (p, hs)"
      by (auto simp: noise_handshake_step_def Let_def)
    have call: "hs_call S (ns_handshake s) hs" by (rule hs_read [OF r])
    from False assms(1) r have "s' = Some (s\<lparr>ns_handshake := hs\<rparr>) \<or>
      (\<exists>c t' o1 o2. handshake_write_turn S rnd malloc_ok (s\<lparr>ns_handshake := hs\<rparr>) o1 = Returns (c, t', o2) \<and> s' = Some t')"
      by (auto simp: noise_handshake_step_def Let_def split: if_splits) blast
    then show ?thesis
      using call by (auto dest!: turn intro: converse_rtranclp_into_rtranclp)
  qed
qed

section \<open>The session invariant\<close>

definition session_inv :: "NoiseSession \<Rightarrow> bool" where
  "session_inv s \<longleftrightarrow>
     wf_hs (ns_handshake s) \<and> ns_transport s = TransportState_default \<and>
     ns_keys_exported s = ns_split_done s \<and>
     (ns_split_done s \<longrightarrow> is_complete (ns_handshake s)) \<and>
     (ns_role s = GN_ROLE_INITIATOR) = hs_initiator (ns_handshake s)"

lemma session_inv_new:
  assumes "hash_ok S" "length (kp_sk kp) = 32" "length (kp_pk kp) = 32"
    and "\<And>rs. pre = Some rs \<Longrightarrow> length rs = 32"
  shows "session_inv (NoiseSession_new S pattern initiator kp pre)"
  using wf_keys_new [OF assms] by (simp add: session_inv_def NoiseSession_new_def fresh_fields)

lemma session_inv_handshake:
  assumes S: "hash_ok S" "dh_ok S" and inv: "session_inv s" and run: "(hs_call S)\<^sup>*\<^sup>* (ns_handshake s) hs"
  shows "session_inv (s\<lparr>ns_handshake := hs\<rparr>)"
  using hs_machine.always [of "ns_handshake s" "ns_handshake s" S hs] S inv run
  by (auto simp: session_inv_def same_identity_def)

lemma wf_hs_split: "erase_ok S \<Longrightarrow> wf_hs hs \<Longrightarrow> wf_hs (snd (hs_split S hs))"
  by (simp add: hs_split_eq sym_split_eq eager_wipe_def wf_hs_def wf_keys_def wf_sym_def len_simps)

lemma hs_split_frame:
  "is_complete (snd (hs_split S hs)) = is_complete hs" "hs_initiator (snd (hs_split S hs)) = hs_initiator hs"
  "hs_rs (snd (hs_split S hs)) = hs_rs hs" "ss_h (hs_symmetric (snd (hs_split S hs))) = ss_h (hs_symmetric hs)"
  by (simp_all add: hs_split_eq sym_split_eq eager_wipe_def is_complete_def)

lemma export_keys_session:
  "snd (export_keys S sz s) =
     s\<lparr>ns_handshake := snd (hs_split S (ns_handshake s)), ns_peer_x25519_pk := hs_rs (ns_handshake s)\<rparr>"
  by (simp add: export_keys_def case_prod_unfold Let_def hs_split_frame)

lemma export_keys_result:
  assumes "hash_ok S" "wf_hs (ns_handshake s)"
  shows "fst (export_keys S sz s) =
    \<lparr>hk_api_size = sz,
     hk_send_cipher_key = cs_k (tp_send (fst (hs_split S (ns_handshake s)))),
     hk_recv_cipher_key = cs_k (tp_recv (fst (hs_split S (ns_handshake s)))),
     hk_initial_send_nonce = 0, hk_initial_recv_nonce = 0,
     hk_handshake_hash = take 32 (ss_h (hs_symmetric (ns_handshake s))),
     hk_peer_static_pk = hs_rs (ns_handshake s)\<rparr>"
  using split_fresh [OF assms(1), of "ns_handshake s"] assms(2)
  by (simp add: export_keys_def case_prod_unfold Let_def hs_split_frame key_for_export_def memcpy_def
      wf_cipher_def wf_hs_def wf_keys_def)

text \<open>One call of a vtable entry on a live session that returns, with any arguments.\<close>

inductive session_call :: "'h sodium \<Rightarrow> NoiseSession \<Rightarrow> NoiseSession \<Rightarrow> bool" for S where
  call_step: "length rnd = 32 \<Longrightarrow>
    noise_handshake_step S rnd ok (Some s) inc out = Returns (rc, Some s', out') \<Longrightarrow> session_call S s s'"
| call_export: "noise_export_transport_keys S sz (Some s) keys = (rc, Some s', keys') \<Longrightarrow> session_call S s s'"
| call_encrypt: "noise_encrypt S ok (Some s) p out = Returns (rc, Some s', out') \<Longrightarrow> session_call S s s'"
| call_decrypt: "noise_decrypt S ok (Some s) w out = Returns (rc, Some s', out') \<Longrightarrow> session_call S s s'"
| call_rekey: "noise_rekey S (Some s) = (rc, Some s') \<Longrightarrow> session_call S s s'"

lemma transport_entries_refuse:
  assumes "ns_keys_exported s = ns_split_done s"
  shows "noise_encrypt S ok (Some s) p out = Returns (GN_ERR_INVALID_STATE, Some s, out)"
    "noise_decrypt S ok (Some s) w out = Returns (GN_ERR_INVALID_STATE, Some s, out)"
    "noise_rekey S (Some s) = (GN_ERR_INVALID_STATE, Some s)"
  using assms by (simp_all add: noise_encrypt_def noise_decrypt_def noise_rekey_def)

lemma export_cases:
  "noise_export_transport_keys S sz (Some s) keys =
     (if keys = None then (GN_ERR_NULL_ARG, Some s, keys)
      else if \<not> is_complete (ns_handshake s) \<or> ns_split_done s then (GN_ERR_INVALID_STATE, Some s, keys)
      else (GN_OK, Some (publish_exported (publish_split (snd (export_keys S sz s)))),
            Some (fst (export_keys S sz s))))"
  by (simp add: noise_export_transport_keys_def case_prod_unfold Let_def split: option.splits)

lemma session_inv_export:
  assumes "erase_ok S" "session_inv s" "is_complete (ns_handshake s)"
  shows "session_inv (publish_exported (publish_split (snd (export_keys S sz s))))"
  using assms wf_hs_split [OF assms(1), of "ns_handshake s"]
  by (simp add: session_inv_def publish_exported_def publish_split_def export_keys_session hs_split_frame)

lemma session_call_inv:
  assumes S: "hash_ok S" "dh_ok S" "erase_ok S" and inv: "session_inv s" and call: "session_call S s s'"
  shows "session_inv s'"
proof -
  have flags: "ns_keys_exported s = ns_split_done s" using inv by (simp add: session_inv_def)
  from call show ?thesis
  proof cases
    case (call_step rnd ok inc out rc out')
    from handshake_step_calls [OF call_step(2,1)] obtain hs
      where "s' = s\<lparr>ns_handshake := hs\<rparr>" "(hs_call S)\<^sup>*\<^sup>* (ns_handshake s) hs" by blast
    with session_inv_handshake [OF S(1,2) inv] show ?thesis by simp
  next
    case (call_export sz keys rc keys')
    with inv session_inv_export [OF S(3) inv, of sz] show ?thesis
      by (auto simp: export_cases split: if_splits)
  qed (use inv in \<open>auto simp: transport_entries_refuse [OF flags]\<close>)
qed

interpretation session: safe_machine
  "\<lambda>s. hash_ok S \<and> dh_ok S \<and> erase_ok S \<and> session_inv s" "session_call S"
  "\<lambda>s. hash_ok S \<and> dh_ok S \<and> erase_ok S \<and> session_inv s"
  for S :: "'h sodium"
  by unfold_locales (auto intro: session_call_inv)

text \<open>A session that the host obtains from one of the two open entries.\<close>

definition opened :: "'h sodium \<Rightarrow> NoiseSession \<Rightarrow> bool" where
  "opened S s \<longleftrightarrow> (\<exists>ok pattern role sk pk remote out.
     noise_handshake_open_impl S ok pattern role sk pk remote out = (GN_OK, Some (Some s)))"

lemma open_impl_cases:
  "noise_handshake_open_impl S ok pattern role sk pk remote out =
     (if out = None \<or> sk = None \<or> pk = None then (GN_ERR_NULL_ARG, out)
      else case ed25519_to_x25519 S (the sk) (the pk) of
        None \<Rightarrow> (GN_ERR_INVALID_ENVELOPE, out)
      | Some kp \<Rightarrow>
          if pattern = IK \<and> role = GN_ROLE_INITIATOR \<and> remote = None then (GN_ERR_NULL_ARG, out)
          else if pattern = IK \<and> role = GN_ROLE_INITIATOR \<and>
              crypto_sign_ed25519_pk_to_curve25519 S (the remote) = None then (GN_ERR_INVALID_ENVELOPE, out)
          else if \<not> ok then (GN_ERR_OUT_OF_MEMORY, out)
          else (GN_OK, Some (Some (NoiseSession_new S pattern (role = GN_ROLE_INITIATOR) kp
                  (if pattern = IK \<and> role = GN_ROLE_INITIATOR
                   then crypto_sign_ed25519_pk_to_curve25519 S (the remote) else None)))))"
  by (cases remote) (auto simp: noise_handshake_open_impl_def Let_def split: option.splits)

lemma ed25519_to_x25519_length:
  "conv_ok S \<Longrightarrow> ed25519_to_x25519 S sk pk = Some kp \<Longrightarrow> length (kp_sk kp) = 32 \<and> length (kp_pk kp) = 32"
  by (auto simp: ed25519_to_x25519_def conv_ok_def split: option.splits)

lemma open_ok_session:
  assumes "noise_handshake_open_impl S ok pattern role sk pk remote out = (GN_OK, Some (Some s))"
  shows "\<exists>kp. ed25519_to_x25519 S (the sk) (the pk) = Some kp \<and>
    s = NoiseSession_new S pattern (role = GN_ROLE_INITIATOR) kp
          (if pattern = IK \<and> role = GN_ROLE_INITIATOR
           then crypto_sign_ed25519_pk_to_curve25519 S (the remote) else None)"
proof (cases "ed25519_to_x25519 S (the sk) (the pk)")
  case None
  with assms show ?thesis by (simp add: open_impl_cases split: if_splits)
next
  case (Some kp)
  with assms show ?thesis by (simp only: open_impl_cases option.case) (auto split: if_splits)
qed

lemma opened_inv:
  assumes S: "hash_ok S" "conv_ok S" and s: "opened S s"
  shows "session_inv s"
proof -
  from s obtain pattern role sk pk remote kp where kp: "ed25519_to_x25519 S sk pk = Some kp"
    and s: "s = NoiseSession_new S pattern (role = GN_ROLE_INITIATOR) kp
          (if pattern = IK \<and> role = GN_ROLE_INITIATOR
           then crypto_sign_ed25519_pk_to_curve25519 S remote else None)"
    unfolding opened_def using open_ok_session [of S] by blast
  show ?thesis
    unfolding s using ed25519_to_x25519_length [OF S(2) kp] S
    by (intro session_inv_new) (auto simp: conv_ok_def split: if_splits)
qed

section \<open>Two sessions\<close>

text \<open>One message of a run that succeeded, as seen by the two parties.\<close>

lemma exchange_steps:
  assumes S: "run_laws S" and rnd: "length rnd = 32" and wf: "wf_hs w" "wf_hs r"
    and ex: "exchange S rnd p w r = Returns (Some (m, p', w', r'))"
  shows "write_message S rnd p w = Returns (Some m, w')" "read_message S m r = Returns (Some p', r')"
    "wf_hs w'" "wf_hs r'" "hs_step w' = hs_step w + 1" "hs_step r' = hs_step r + 1"
    "same_identity w w'" "same_identity r r'"
proof -
  show w: "write_message S rnd p w = Returns (Some m, w')"
    and r: "read_message S m r = Returns (Some p', r')"
    using ex by (auto simp: exchange_def split: option.splits)
  from wf_write_message [OF run_lawsD(1,3) [OF S] rnd wf(1) w] show "wf_hs w'" "hs_step w' = hs_step w + 1"
    by simp_all
  from wf_read_message [OF run_lawsD(1) [OF S] wf(2) r] show "wf_hs r'" "hs_step r' = hs_step r + 1"
    by simp_all
  show "same_identity w w'" by (rule write_message_identity [OF run_lawsD(1,3) [OF S] rnd wf(1) w])
  show "same_identity r r'" by (rule read_message_identity [OF run_lawsD(1) [OF S] wf(2) r])
qed

lemma run_handshake_ConsD:
  assumes "run_handshake S ((rnd, p) # xs) w r = Returns (Some (ms, ps, w2, r2))"
  shows "\<exists>m p' w' r' ms' ps'. ms = m # ms' \<and> ps = p' # ps' \<and>
    exchange S rnd p w r = Returns (Some (m, p', w', r')) \<and>
    run_handshake S xs r' w' = Returns (Some (ms', ps', r2, w2))"
  using assms by (auto split: option.splits)

lemma complete_iff: "wf_hs hs \<Longrightarrow> is_complete hs \<longleftrightarrow> hs_step hs = pattern_total_steps (hs_pattern hs)"
  by (auto simp: wf_hs_def is_complete_def)

lemma agreed_exports:
  assumes S: "hash_ok S" and wf: "wf_hs (ns_handshake i)" "wf_hs (ns_handshake r)"
    and agree: "agreed S a b (ns_handshake i) (ns_handshake r)"
    and "\<not> ns_split_done i" "\<not> ns_split_done r"
  shows "\<exists>i' r' ki kr.
    noise_export_transport_keys S sz (Some i) (Some k) = (GN_OK, Some i', Some ki) \<and>
    noise_export_transport_keys S sz (Some r) (Some k') = (GN_OK, Some r', Some kr) \<and>
    hk_send_cipher_key ki = hk_recv_cipher_key kr \<and> hk_recv_cipher_key ki = hk_send_cipher_key kr \<and>
    length (hk_send_cipher_key ki) = 32 \<and> length (hk_recv_cipher_key ki) = 32 \<and>
    hk_handshake_hash ki = hk_handshake_hash kr \<and> length (hk_handshake_hash ki) = 32 \<and>
    hk_peer_static_pk ki = kp_pk b \<and> hk_peer_static_pk kr = kp_pk a \<and>
    hk_initial_send_nonce ki = 0 \<and> hk_initial_recv_nonce ki = 0 \<and>
    hk_initial_send_nonce kr = 0 \<and> hk_initial_recv_nonce kr = 0"
  using assms split_fresh [OF S, of "ns_handshake i"]
  by (simp add: export_cases export_keys_result agreed_def wf_cipher_def)
    (simp add: wf_hs_def wf_keys_def wf_sym_def)

text \<open>
  The calls of the two hosts for an XX handshake: four calls, three messages. The last call
  only reads, whatever bytes the random source would give.
\<close>

definition xx_exchange ::
  "'h sodium \<Rightarrow> bytes \<Rightarrow> bytes \<Rightarrow> bytes \<Rightarrow> NoiseSession \<Rightarrow> NoiseSession \<Rightarrow>
     bytes \<Rightarrow> bytes \<Rightarrow> bytes \<Rightarrow> NoiseSession \<Rightarrow> NoiseSession \<Rightarrow> bool" where
  "xx_exchange S e1 e2 e3 i r m1 m2 m3 i' r' \<longleftrightarrow> (\<exists>i1 r1.
     noise_handshake_step S e1 True (Some i) [] (Some empty_buffer) = Returns (GN_OK, Some i1, Some (filled_buffer m1)) \<and>
     noise_handshake_step S e2 True (Some r) m1 (Some empty_buffer) = Returns (GN_OK, Some r1, Some (filled_buffer m2)) \<and>
     noise_handshake_step S e3 True (Some i1) m2 (Some empty_buffer) = Returns (GN_OK, Some i', Some (filled_buffer m3)) \<and>
     (\<forall>e. noise_handshake_step S e True (Some r1) m3 (Some empty_buffer) = Returns (GN_OK, Some r', Some empty_buffer)))"

text \<open>The messages of an XX run with empty payloads, and the states between them.\<close>

lemma xx_trace:
  assumes S: "run_laws S" and keys: "own_keypair S (kp_sk a) (kp_pk a)" "own_keypair S (kp_sk b) (kp_pk b)"
    and rnd: "length e1 = 32" "length e2 = 32" "length e3 = 32"
    and i0: "i0 = HandshakeState_new S XX True a None" and r0: "r0 = HandshakeState_new S XX False b None"
  obtains m1 m2 m3 i1 r1 i2 r2 i r where
    "write_message S e1 [] i0 = Returns (Some m1, i1)" "read_message S m1 r0 = Returns (Some [], r1)"
    "write_message S e2 [] r1 = Returns (Some m2, r2)" "read_message S m2 i1 = Returns (Some [], i2)"
    "write_message S e3 [] i2 = Returns (Some m3, i)" "read_message S m3 r2 = Returns (Some [], r)"
    "length m1 = 32" "length m2 = 96" "length m3 = 64"
    "hs_step r1 = 1" "\<not> is_complete r1" "hs_step i2 = 2" "\<not> is_complete i2"
    "wf_hs i" "wf_hs r" "agreed S a b i r"
proof -
  note len = own_keypair_length [OF S keys(1)] own_keypair_length [OF S keys(2)]
  have wf0: "wf_hs i0" "wf_hs r0" unfolding i0 r0 using S len by (auto intro: wf_keys_new simp: run_lawsD)
  from run_agrees [OF S keys, of None None XX no_kn "[(e1, []), (e2, []), (e3, [])]"] rnd
  obtain ms i r where run: "run_handshake S [(e1, []), (e2, []), (e3, [])] i0 r0 = Returns (Some (ms, [[], [], []], i, r))"
    and agree: "agreed S a b i r"
    and sizes: "map length ms = wire_sizes no_kn (implemented_pattern XX) [0, 0, 0]"
    by (auto simp: i0 r0)
  from run_handshake_ConsD [OF run] obtain m1 ms1 i1 r1
    where ex1: "exchange S e1 [] i0 r0 = Returns (Some (m1, [], i1, r1))" and ms: "ms = m1 # ms1"
      and run1: "run_handshake S [(e2, []), (e3, [])] r1 i1 = Returns (Some (ms1, [[], []], r, i))" by auto
  from run_handshake_ConsD [OF run1] obtain m2 ms2 i2 r2
    where ex2: "exchange S e2 [] r1 i1 = Returns (Some (m2, [], r2, i2))" and ms1: "ms1 = m2 # ms2"
      and run2: "run_handshake S [(e3, [])] i2 r2 = Returns (Some (ms2, [[]], i, r))" by auto
  from run_handshake_ConsD [OF run2] obtain m3
    where ex3: "exchange S e3 [] i2 r2 = Returns (Some (m3, [], i, r))" and ms2: "ms2 = [m3]" by auto
  note s1 = exchange_steps [OF S rnd(1) wf0 ex1]
  note s2 = exchange_steps [OF S rnd(2) s1(4,3) ex2]
  note s3 = exchange_steps [OF S rnd(3) s2(4,3) ex3]
  from sizes have "length m1 = 32" "length m2 = 96" "length m3 = 64"
    by (simp_all add: ms ms1 ms2 message_size_def no_kn_def swap_kn_def)
  moreover have "hs_step r1 = 1" "hs_step i2 = 2" "hs_pattern r1 = XX" "hs_pattern i2 = XX"
    using s1 s2 by (simp_all add: i0 r0 fresh_fields same_identity_def)
  ultimately show ?thesis
    using that [OF s1(1,2) s2(1,2) s3(1,2)] s1 s2 s3 agree by (simp add: complete_iff)
qed

lemma session_new_fields:
  "ns_handshake (NoiseSession_new S pat ini kp pre) = HandshakeState_new S pat ini kp pre"
  "ns_role (NoiseSession_new S pat ini kp pre) = (if ini then GN_ROLE_INITIATOR else GN_ROLE_RESPONDER)"
  "\<not> ns_split_done (NoiseSession_new S pat ini kp pre)"
  by (simp_all add: NoiseSession_new_def)

lemma xx_sessions_complete:
  assumes S: "run_laws S" and keys: "own_keypair S (kp_sk a) (kp_pk a)" "own_keypair S (kp_sk b) (kp_pk b)"
    and rnd: "length e1 = 32" "length e2 = 32" "length e3 = 32"
  shows "\<exists>m1 m2 m3 i' r'.
    xx_exchange S e1 e2 e3 (NoiseSession_new S XX True a None) (NoiseSession_new S XX False b None) m1 m2 m3 i' r' \<and>
    length m1 = 32 \<and> length m2 = 96 \<and> length m3 = 64 \<and>
    wf_hs (ns_handshake i') \<and> wf_hs (ns_handshake r') \<and> agreed S a b (ns_handshake i') (ns_handshake r') \<and>
    \<not> ns_split_done i' \<and> \<not> ns_split_done r'"
proof (rule xx_trace [OF S keys rnd refl refl])
  let ?I = "NoiseSession_new S XX True a None" and ?R = "NoiseSession_new S XX False b None"
  let ?i = "HandshakeState_new S XX True a None" and ?r = "HandshakeState_new S XX False b None"
  fix m1 m2 m3 i1 r1 i2 r2 i r
  assume w1: "write_message S e1 [] ?i = Returns (Some m1, i1)" and r1: "read_message S m1 ?r = Returns (Some [], r1)"
    and w2: "write_message S e2 [] r1 = Returns (Some m2, r2)" and r2: "read_message S m2 i1 = Returns (Some [], i2)"
    and w3: "write_message S e3 [] i2 = Returns (Some m3, i)" and r3: "read_message S m3 r2 = Returns (Some [], r)"
    and l: "length m1 = 32" "length m2 = 96" "length m3 = 64"
    and st: "hs_step r1 = 1" "\<not> is_complete r1" "hs_step i2 = 2" "\<not> is_complete i2"
    and wf: "wf_hs i" "wf_hs r" and agree: "agreed S a b i r"
  from l have ne: "m1 \<noteq> []" "m2 \<noteq> []" "m3 \<noteq> []" by auto
  have c1: "noise_handshake_step S e1 True (Some ?I) [] (Some empty_buffer) =
      Returns (GN_OK, Some (?I\<lparr>ns_handshake := i1\<rparr>), Some (filled_buffer m1))"
    using w1 ne(1) by (intro step_writes) (simp_all add: on_turn_def session_new_fields fresh_fields)
  have c2: "noise_handshake_step S e2 True (Some ?R) m1 (Some empty_buffer) =
      Returns (GN_OK, Some (?R\<lparr>ns_handshake := r2\<rparr>), Some (filled_buffer m2))"
    using r1 w2 ne(1,2) st by (intro step_reads_and_writes) (simp_all add: on_turn_def session_new_fields)
  have c3: "noise_handshake_step S e3 True (Some (?I\<lparr>ns_handshake := i1\<rparr>)) m2 (Some empty_buffer) =
      Returns (GN_OK, Some (?I\<lparr>ns_handshake := i\<rparr>), Some (filled_buffer m3))"
    using step_reads_and_writes [of S m2 "?I\<lparr>ns_handshake := i1\<rparr>" "[]" i2 e3 m3 i empty_buffer]
      r2 w3 ne(2,3) st by (simp add: on_turn_def session_new_fields)
  have c4: "noise_handshake_step S e True (Some (?R\<lparr>ns_handshake := r2\<rparr>)) m3 (Some empty_buffer) =
      Returns (GN_OK, Some (?R\<lparr>ns_handshake := r\<rparr>), Some empty_buffer)" for e
    using step_reads_last [of S m3 "?R\<lparr>ns_handshake := r2\<rparr>" "[]" r e True empty_buffer]
      r3 ne(3) agree by (simp add: agreed_def)
  from c1 c2 c3 c4 have "xx_exchange S e1 e2 e3 ?I ?R m1 m2 m3 (?I\<lparr>ns_handshake := i\<rparr>) (?R\<lparr>ns_handshake := r\<rparr>)"
    unfolding xx_exchange_def by blast
  with l agree wf show ?thesis by (fastforce simp: session_new_fields)
qed

text \<open>The calls for an IK handshake: three calls, two messages.\<close>

definition ik_exchange ::
  "'h sodium \<Rightarrow> bytes \<Rightarrow> bytes \<Rightarrow> NoiseSession \<Rightarrow> NoiseSession \<Rightarrow>
     bytes \<Rightarrow> bytes \<Rightarrow> NoiseSession \<Rightarrow> NoiseSession \<Rightarrow> bool" where
  "ik_exchange S e1 e2 i r m1 m2 i' r' \<longleftrightarrow> (\<exists>i1.
     noise_handshake_step S e1 True (Some i) [] (Some empty_buffer) = Returns (GN_OK, Some i1, Some (filled_buffer m1)) \<and>
     noise_handshake_step S e2 True (Some r) m1 (Some empty_buffer) = Returns (GN_OK, Some r', Some (filled_buffer m2)) \<and>
     (\<forall>e. noise_handshake_step S e True (Some i1) m2 (Some empty_buffer) = Returns (GN_OK, Some i', Some empty_buffer)))"

lemma ik_trace:
  assumes S: "run_laws S" and keys: "own_keypair S (kp_sk a) (kp_pk a)" "own_keypair S (kp_sk b) (kp_pk b)"
    and rnd: "length e1 = 32" "length e2 = 32"
    and i0: "i0 = HandshakeState_new S IK True a (Some (kp_pk b))" and r0: "r0 = HandshakeState_new S IK False b None"
  obtains m1 m2 i1 r1 i r where
    "write_message S e1 [] i0 = Returns (Some m1, i1)" "read_message S m1 r0 = Returns (Some [], r1)"
    "write_message S e2 [] r1 = Returns (Some m2, r)" "read_message S m2 i1 = Returns (Some [], i)"
    "length m1 = 96" "length m2 = 48" "hs_step r1 = 1" "\<not> is_complete r1"
    "wf_hs i" "wf_hs r" "agreed S a b i r"
proof -
  note len = own_keypair_length [OF S keys(1)] own_keypair_length [OF S keys(2)]
  have wf0: "wf_hs i0" "wf_hs r0" unfolding i0 r0 using S len by (auto intro: wf_keys_new simp: run_lawsD)
  from run_agrees [OF S keys, of "Some (kp_pk b)" None IK "no_kn\<lparr>kn_rs := True\<rparr>" "[(e1, []), (e2, [])]"] rnd len
  obtain ms i r where run: "run_handshake S [(e1, []), (e2, [])] i0 r0 = Returns (Some (ms, [[], []], i, r))"
    and agree: "agreed S a b i r"
    and sizes: "map length ms = wire_sizes (no_kn\<lparr>kn_rs := True\<rparr>) (implemented_pattern IK) [0, 0]"
    by (auto simp: i0 r0)
  from run_handshake_ConsD [OF run] obtain m1 ms1 i1 r1
    where ex1: "exchange S e1 [] i0 r0 = Returns (Some (m1, [], i1, r1))" and ms: "ms = m1 # ms1"
      and run1: "run_handshake S [(e2, [])] r1 i1 = Returns (Some (ms1, [[]], r, i))" by auto
  from run_handshake_ConsD [OF run1] obtain m2
    where ex2: "exchange S e2 [] r1 i1 = Returns (Some (m2, [], r, i))" and ms1: "ms1 = [m2]" by auto
  note s1 = exchange_steps [OF S rnd(1) wf0 ex1]
  note s2 = exchange_steps [OF S rnd(2) s1(4,3) ex2]
  from sizes have "length m1 = 96" "length m2 = 48"
    by (simp_all add: ms ms1 message_size_def no_kn_def swap_kn_def)
  moreover have "hs_step r1 = 1" "hs_pattern r1 = IK"
    using s1 by (simp_all add: i0 r0 fresh_fields same_identity_def)
  ultimately show ?thesis
    using that [OF s1(1,2) s2(1,2)] s1 s2 agree by (simp add: complete_iff)
qed

lemma ik_sessions_complete:
  assumes S: "run_laws S" and keys: "own_keypair S (kp_sk a) (kp_pk a)" "own_keypair S (kp_sk b) (kp_pk b)"
    and rnd: "length e1 = 32" "length e2 = 32"
  shows "\<exists>m1 m2 i' r'.
    ik_exchange S e1 e2 (NoiseSession_new S IK True a (Some (kp_pk b))) (NoiseSession_new S IK False b None) m1 m2 i' r' \<and>
    length m1 = 96 \<and> length m2 = 48 \<and>
    wf_hs (ns_handshake i') \<and> wf_hs (ns_handshake r') \<and> agreed S a b (ns_handshake i') (ns_handshake r') \<and>
    \<not> ns_split_done i' \<and> \<not> ns_split_done r'"
proof (rule ik_trace [OF S keys rnd refl refl])
  let ?I = "NoiseSession_new S IK True a (Some (kp_pk b))" and ?R = "NoiseSession_new S IK False b None"
  let ?i = "HandshakeState_new S IK True a (Some (kp_pk b))" and ?r = "HandshakeState_new S IK False b None"
  fix m1 m2 i1 r1 i r
  assume w1: "write_message S e1 [] ?i = Returns (Some m1, i1)" and r1: "read_message S m1 ?r = Returns (Some [], r1)"
    and w2: "write_message S e2 [] r1 = Returns (Some m2, r)" and r2: "read_message S m2 i1 = Returns (Some [], i)"
    and l: "length m1 = 96" "length m2 = 48" and st: "hs_step r1 = 1" "\<not> is_complete r1"
    and wf: "wf_hs i" "wf_hs r" and agree: "agreed S a b i r"
  from l have ne: "m1 \<noteq> []" "m2 \<noteq> []" by auto
  have c1: "noise_handshake_step S e1 True (Some ?I) [] (Some empty_buffer) =
      Returns (GN_OK, Some (?I\<lparr>ns_handshake := i1\<rparr>), Some (filled_buffer m1))"
    using w1 ne(1) by (intro step_writes) (simp_all add: on_turn_def session_new_fields fresh_fields)
  have c2: "noise_handshake_step S e2 True (Some ?R) m1 (Some empty_buffer) =
      Returns (GN_OK, Some (?R\<lparr>ns_handshake := r\<rparr>), Some (filled_buffer m2))"
    using r1 w2 ne(1,2) st by (intro step_reads_and_writes) (simp_all add: on_turn_def session_new_fields)
  have c3: "noise_handshake_step S e True (Some (?I\<lparr>ns_handshake := i1\<rparr>)) m2 (Some empty_buffer) =
      Returns (GN_OK, Some (?I\<lparr>ns_handshake := i\<rparr>), Some empty_buffer)" for e
    using step_reads_last [of S m2 "?I\<lparr>ns_handshake := i1\<rparr>" "[]" i e True empty_buffer]
      r2 ne(2) agree by (simp add: agreed_def)
  from c1 c2 c3 have "ik_exchange S e1 e2 ?I ?R m1 m2 (?I\<lparr>ns_handshake := i\<rparr>) (?R\<lparr>ns_handshake := r\<rparr>)"
    unfolding ik_exchange_def by blast
  with l agree wf show ?thesis by (fastforce simp: session_new_fields)
qed

section \<open>After the export\<close>

lemma session_call_split_done: "session_call S s s' \<Longrightarrow> ns_split_done s \<Longrightarrow> ns_split_done s'"
proof (induction rule: session_call.induct)
  case (call_step rnd ok s inc out rc s' out')
  from handshake_step_calls [OF call_step(2,1)] call_step(3) show ?case by auto
next
  case (call_encrypt ok s p out rc s' out')
  then show ?case by (auto simp: noise_encrypt_def case_prod_unfold Let_def split: if_splits)
next
  case (call_decrypt ok s w out rc s' out')
  then show ?case
    by (auto simp: noise_decrypt_def case_prod_unfold Let_def split: if_splits option.splits)
qed (auto simp: export_cases noise_rekey_def split: if_splits)

interpretation exported: safe_machine ns_split_done "session_call S" ns_split_done
  for S :: "'h sodium"
  by unfold_locales (auto intro: session_call_split_done)

lemma reachable_inv:
  assumes "hash_ok S" "dh_ok S" "erase_ok S" "conv_ok S" "opened S s" "(session_call S)\<^sup>*\<^sup>* s t"
  shows "session_inv t"
  using session.always [of S s t] opened_inv [of S s] assms by blast

definition session_laws :: "'h sodium \<Rightarrow> bool" where
  "session_laws S \<longleftrightarrow> hash_ok S \<and> dh_ok S \<and> erase_ok S \<and> conv_ok S"

lemma session_lawsD:
  "session_laws S \<Longrightarrow> hash_ok S" "session_laws S \<Longrightarrow> dh_ok S"
  "session_laws S \<Longrightarrow> erase_ok S" "session_laws S \<Longrightarrow> conv_ok S"
  by (simp_all add: session_laws_def)

lemma toy_session_laws [simp]: "session_laws toy_sodium"
  by (simp add: session_laws_def)

text \<open>A session of the computable library, as the host opens it.\<close>

definition toy_session :: "Pattern \<Rightarrow> gn_handshake_role \<Rightarrow> NoiseSession" where
  "toy_session pattern role = NoiseSession_new toy_sodium pattern (role = GN_ROLE_INITIATOR)
     \<lparr>kp_pk = 9 # replicate 31 3, kp_sk = replicate 32 3\<rparr>
     (if pattern = IK \<and> role = GN_ROLE_INITIATOR then Some (9 # replicate 31 5) else None)"

lemma toy_conversions:
  "crypto_sign_ed25519_sk_to_curve25519 toy_sodium (replicate 64 x) = Some (replicate 32 x)"
  "x \<noteq> 0 \<Longrightarrow> crypto_sign_ed25519_pk_to_curve25519 toy_sodium (replicate 32 x) = Some (9 # replicate 31 x)"
  by (simp_all add: toy_sodium_def all_zero_def list_all_iff)

lemma toy_open:
  "noise_handshake_open_impl toy_sodium True pattern role (Some (replicate 64 3)) (Some (replicate 32 3))
     (Some (replicate 32 5)) (Some None) = (GN_OK, Some (Some (toy_session pattern role)))"
  by (simp add: open_impl_cases ed25519_to_x25519_def toy_session_def toy_conversions)

lemma toy_opened: "opened toy_sodium (toy_session pattern role)"
  unfolding opened_def using toy_open by blast

definition blank_keys :: gn_handshake_keys where
  "blank_keys = \<lparr>hk_api_size = 0, hk_send_cipher_key = zeros 32, hk_recv_cipher_key = zeros 32,
     hk_initial_send_nonce = 0, hk_initial_recv_nonce = 0, hk_handshake_hash = zeros 32,
     hk_peer_static_pk = zeros 32\<rparr>"

lemma toy_keypair: "own_keypair toy_sodium (replicate 32 x) (9 # replicate 31 x)"
  by (simp add: own_keypair_def toy_sodium_def)

lemma xx_exchange_calls:
  assumes "xx_exchange S e1 e2 e3 i r m1 m2 m3 i' r'" "length e1 = 32" "length e3 = 32"
  shows "(session_call S)\<^sup>*\<^sup>* i i'"
proof -
  from assms(1) obtain i1
    where "noise_handshake_step S e1 True (Some i) [] (Some empty_buffer) = Returns (GN_OK, Some i1, Some (filled_buffer m1))"
      "noise_handshake_step S e3 True (Some i1) m2 (Some empty_buffer) = Returns (GN_OK, Some i', Some (filled_buffer m3))"
    unfolding xx_exchange_def by blast
  with assms(2,3) have "session_call S i i1" "session_call S i1 i'" by (blast intro: call_step)+
  then show ?thesis by (blast intro: converse_rtranclp_into_rtranclp)
qed

text \<open>A session of the computable library that has completed its handshake.\<close>

lemma toy_complete_session:
  "\<exists>t. (session_call toy_sodium)\<^sup>*\<^sup>* (toy_session XX GN_ROLE_INITIATOR) t \<and>
     is_complete (ns_handshake t) \<and> \<not> ns_split_done t"
proof -
  let ?a = "\<lparr>kp_pk = 9 # replicate 31 3, kp_sk = replicate 32 3\<rparr>"
  let ?e = "replicate 32 1 :: bytes"
  have "run_laws toy_sodium" by simp
  from xx_sessions_complete [OF this, of ?a ?a ?e ?e ?e] obtain m1 m2 m3 i' r'
    where run: "xx_exchange toy_sodium ?e ?e ?e (toy_session XX GN_ROLE_INITIATOR)
        (NoiseSession_new toy_sodium XX False ?a None) m1 m2 m3 i' r'"
      and post: "agreed toy_sodium ?a ?a (ns_handshake i') (ns_handshake r')" "\<not> ns_split_done i'"
    by (auto simp: toy_keypair toy_session_def)
  have "(session_call toy_sodium)\<^sup>*\<^sup>* (toy_session XX GN_ROLE_INITIATOR) i'"
    by (rule xx_exchange_calls [OF run]) simp_all
  with post show ?thesis by (auto simp: agreed_def)
qed

section \<open>Properties\<close>

text \<open>
  C30. Opening a session: the entry succeeds exactly when no required pointer is null, the local
  Ed25519 pair converts, the remote key is present and converts for an IK initiator, and the
  allocation succeeds. It then stores a session that satisfies the session invariant and has the
  requested pattern and role; on every error the out-parameter keeps its old contents.
\<close>

theorem open_succeeds_iff:
  assumes "session_laws S"
  shows "let (rc, out') = noise_handshake_open_impl S new_ok pattern role sk pk remote out in
    (rc = GN_OK \<longleftrightarrow> out \<noteq> None \<and> sk \<noteq> None \<and> pk \<noteq> None \<and>
       ed25519_to_x25519 S (the sk) (the pk) \<noteq> None \<and>
       (pattern = IK \<and> role = GN_ROLE_INITIATOR \<longrightarrow>
          remote \<noteq> None \<and> crypto_sign_ed25519_pk_to_curve25519 S (the remote) \<noteq> None) \<and> new_ok) \<and>
    (if rc = GN_OK
     then \<exists>s. out' = Some (Some s) \<and> session_inv s \<and> hs_pattern (ns_handshake s) = pattern \<and>
            ns_role s = role \<and> \<not> is_complete (ns_handshake s) \<and> \<not> ns_split_done s
     else out' = out)"
proof (cases "fst (noise_handshake_open_impl S new_ok pattern role sk pk remote out) = GN_OK")
  case True
  then obtain s where s: "noise_handshake_open_impl S new_ok pattern role sk pk remote out = (GN_OK, Some (Some s))"
    by (auto simp: open_impl_cases split: if_splits option.splits)
  then have "session_inv s"
    using opened_inv [of S s] assms unfolding opened_def session_laws_def by blast
  moreover have "hs_pattern (ns_handshake s) = pattern \<and> ns_role s = role \<and>
      \<not> is_complete (ns_handshake s) \<and> \<not> ns_split_done s"
    using open_ok_session [OF s] \<open>session_inv s\<close>
    by (cases role; cases pattern) (auto simp: session_new_fields fresh_fields complete_iff session_inv_def)
  moreover have "out \<noteq> None \<and> sk \<noteq> None \<and> pk \<noteq> None \<and> ed25519_to_x25519 S (the sk) (the pk) \<noteq> None \<and>
       (pattern = IK \<and> role = GN_ROLE_INITIATOR \<longrightarrow>
          remote \<noteq> None \<and> crypto_sign_ed25519_pk_to_curve25519 S (the remote) \<noteq> None) \<and> new_ok"
    using True by (auto simp: open_impl_cases split: if_splits option.splits)
  ultimately show ?thesis using s by simp
next
  case False
  then show ?thesis by (auto simp: open_impl_cases split: if_splits option.splits)
qed

theorem open_succeeds_iff_witness:
  "\<exists>s. noise_handshake_open_impl toy_sodium True IK GN_ROLE_INITIATOR (Some (replicate 64 3))
         (Some (replicate 32 3)) (Some (replicate 32 5)) (Some None) = (GN_OK, Some (Some s)) \<and> session_inv s"
  using open_succeeds_iff [OF toy_session_laws, of True IK GN_ROLE_INITIATOR "Some (replicate 64 3)"
      "Some (replicate 32 3)" "Some (replicate 32 5)" "Some None"]
  by (simp add: toy_open)

text \<open>
  C29. The transport entries of the vtable never carry data: in every session a host can reach by
  calls of the entries, in any order and with any arguments, encryption, decryption and rekey
  answer \<open>GN_ERR_INVALID_STATE\<close> and change nothing. They are refused before the export because no
  split has happened, and after it because the keys have been handed out.
\<close>

theorem transport_entries_always_refuse:
  assumes "session_laws S" and "opened S s" and "(session_call S)\<^sup>*\<^sup>* s t"
  shows "noise_encrypt S ok (Some t) p out = Returns (GN_ERR_INVALID_STATE, Some t, out) \<and>
    noise_decrypt S ok (Some t) w out = Returns (GN_ERR_INVALID_STATE, Some t, out) \<and>
    noise_rekey S (Some t) = (GN_ERR_INVALID_STATE, Some t)"
proof -
  have "ns_keys_exported t = ns_split_done t"
    using reachable_inv [of S s t] assms by (simp add: session_inv_def session_laws_def)
  from transport_entries_refuse [OF this] show ?thesis by blast
qed

theorem transport_entries_always_refuse_witness:
  "noise_encrypt toy_sodium True (Some (toy_session XX GN_ROLE_RESPONDER)) [1] (Some empty_buffer) =
     Returns (GN_ERR_INVALID_STATE, Some (toy_session XX GN_ROLE_RESPONDER), Some empty_buffer) \<and>
   noise_rekey toy_sodium (Some (toy_session XX GN_ROLE_RESPONDER)) =
     (GN_ERR_INVALID_STATE, Some (toy_session XX GN_ROLE_RESPONDER))"
  using transport_entries_always_refuse [OF toy_session_laws toy_opened rtranclp.rtrancl_refl] by blast

text \<open>
  C6. Key export: in a reachable session the export succeeds exactly when the handshake is complete
  and no export has succeeded before. On success the exported keys and the channel binding have 32
  bytes and the nonces are zero, the handshake secrets of the session are erased, and after any
  further calls a second export is refused and writes nothing; on failure neither the session nor
  the output structure changes.
\<close>

theorem export_succeeds_once:
  assumes S: "session_laws S" and s: "opened S s" and run: "(session_call S)\<^sup>*\<^sup>* s t"
  shows "let (rc, t', keys') = noise_export_transport_keys S sz (Some t) (Some keys) in
    (rc = GN_OK \<longleftrightarrow> is_complete (ns_handshake t) \<and> \<not> ns_split_done t) \<and>
    (if rc = GN_OK
     then \<exists>u k. t' = Some u \<and> keys' = Some k \<and>
       length (hk_send_cipher_key k) = 32 \<and> length (hk_recv_cipher_key k) = 32 \<and>
       length (hk_handshake_hash k) = 32 \<and> hk_initial_send_nonce k = 0 \<and> hk_initial_recv_nonce k = 0 \<and>
       hk_peer_static_pk k = hs_rs (ns_handshake t) \<and>
       list_all all_zero (split_secrets (ns_handshake u)) \<and>
       (\<forall>v k'. (session_call S)\<^sup>*\<^sup>* u v \<longrightarrow>
          noise_export_transport_keys S sz (Some v) (Some k') = (GN_ERR_INVALID_STATE, Some v, Some k'))
     else t' = Some t \<and> keys' = Some keys)"
proof (cases "is_complete (ns_handshake t) \<and> \<not> ns_split_done t")
  case True
  let ?u = "publish_exported (publish_split (snd (export_keys S sz t)))"
  have inv: "session_inv t" using reachable_inv [of S s t] S s run by (simp add: session_laws_def)
  then have wf: "wf_hs (ns_handshake t)" by (simp add: session_inv_def)
  have "noise_export_transport_keys S sz (Some v) (Some k') = (GN_ERR_INVALID_STATE, Some v, Some k')"
    if "(session_call S)\<^sup>*\<^sup>* ?u v" for v k'
    using exported.always [OF _ that] by (simp add: export_cases publish_exported_def publish_split_def)
  moreover have "list_all all_zero (split_secrets (ns_handshake ?u))"
    using session_lawsD(3) [OF S]
    by (simp add: publish_exported_def publish_split_def export_keys_session split_secrets_def
        hs_split_eq sym_split_eq eager_wipe_def all_zero_memzero)
  ultimately show ?thesis
    using True split_fresh [OF session_lawsD(1) [OF S], of "ns_handshake t"] wf
    by (simp add: export_cases export_keys_result [OF session_lawsD(1) [OF S] wf] wf_cipher_def)
      (simp add: wf_hs_def wf_keys_def wf_sym_def)
next
  case False
  then show ?thesis by (auto simp: export_cases)
qed

theorem export_succeeds_once_witness:
  "\<exists>t u k. (session_call toy_sodium)\<^sup>*\<^sup>* (toy_session XX GN_ROLE_INITIATOR) t \<and>
     noise_export_transport_keys toy_sodium 168 (Some t) (Some blank_keys) = (GN_OK, Some u, Some k) \<and>
     length (hk_send_cipher_key k) = 32 \<and> list_all all_zero (split_secrets (ns_handshake u)) \<and>
     noise_export_transport_keys toy_sodium 168 (Some u) (Some k) = (GN_ERR_INVALID_STATE, Some u, Some k)"
proof -
  from toy_complete_session obtain t where run: "(session_call toy_sodium)\<^sup>*\<^sup>* (toy_session XX GN_ROLE_INITIATOR) t"
    and t: "is_complete (ns_handshake t)" "\<not> ns_split_done t" by blast
  from export_succeeds_once [OF toy_session_laws toy_opened run, of 168 blank_keys] t run show ?thesis
    by (cases "noise_export_transport_keys toy_sodium 168 (Some t) (Some blank_keys)") fastforce
qed



text \<open>
  C36. A completed handshake accepts no further handshake call: whatever bytes arrive, the session
  is unchanged and nothing is emitted. The call is refused with \<open>GN_ERR_INVALID_ENVELOPE\<close>, except
  that an idle poll of the side that is not next to write reports \<open>GN_OK\<close>.
\<close>

theorem completed_session_refuses_messages:
  assumes "is_complete (ns_handshake s)"
  shows "noise_handshake_step S rnd ok (Some s) incoming (Some out) =
    Returns (if incoming = [] \<and> \<not> on_turn s then GN_OK else GN_ERR_INVALID_ENVELOPE,
      Some s, Some empty_buffer)"
  using assms
  by (simp add: noise_handshake_step_def handshake_write_turn_eq Let_def read_complete write_complete)

theorem completed_session_refuses_messages_witness:
  "\<exists>s. is_complete (ns_handshake s) \<and>
     noise_handshake_step toy_sodium (zeros 32) True (Some s) [1, 2] (Some empty_buffer) =
       Returns (GN_ERR_INVALID_ENVELOPE, Some s, Some empty_buffer)"
proof -
  from toy_complete_session obtain t :: NoiseSession
    where "is_complete (ns_handshake t)" by blast
  with completed_session_refuses_messages [OF this, of toy_sodium "zeros 32" True "[1, 2]" empty_buffer]
  show ?thesis by auto
qed

text \<open>
  C35. Closing a session leaves no secret in the freed memory: all key and hash buffers of the
  handshake and both transport keys are zero, whatever state the session was in.
\<close>

theorem close_erases_session:
  assumes "erase_ok S"
  shows "\<exists>s'. noise_handshake_close S (Some s) = Some s' \<and>
    list_all all_zero (hs_buffers (ns_handshake s')) \<and>
    all_zero (cs_k (ts_send (ns_transport s'))) \<and> all_zero (cs_k (ts_recv (ns_transport s')))"
  using hs_obj.destroy_wipes [OF assms, of _ "ns_handshake s"]
    transport_obj.destroy_wipes [OF assms, of _ "ns_transport s"]
  by (simp add: noise_handshake_close_def list_all_iff)

theorem close_erases_session_witness:
  "\<exists>s'. noise_handshake_close toy_sodium (Some (toy_session IK GN_ROLE_INITIATOR)) = Some s' \<and>
    list_all all_zero (hs_buffers (ns_handshake s')) \<and>
    all_zero (cs_k (ts_send (ns_transport s'))) \<and> all_zero (cs_k (ts_recv (ns_transport s')))"
  by (rule close_erases_session [OF toy_erase_ok])

end
