(* ===== verification/Plugin.thy ===== *)
theory Plugin
  imports Session
begin

text \<open>
  \<^verbatim>\<open>noise.cpp\<close>, the two provider vtables, the plugin descriptor and the exported plugin entries. The
  host is a parameter: its registration functions act on a host state \<open>'w\<close> and may be absent (a
  null slot). The numeric constants of the SDK are fields of a record \<open>sdk\<close>.
\<close>

section \<open>The plugin instance\<close>

text \<open>
  Registration passes the host context, the provider id, a pointer to the provider's vtable (here
  the pattern that selects it) and the plugin instance, which the host keeps opaque.
\<close>

record 'w host_api =
  ha_host_ctx :: nat
  ha_register_security :: "(nat \<Rightarrow> string \<Rightarrow> Pattern \<Rightarrow> 'w \<Rightarrow> gn_result \<times> 'w) option"
  ha_unregister_security :: "(nat \<Rightarrow> string \<Rightarrow> 'w \<Rightarrow> gn_result \<times> 'w) option"

record 'w NoisePlugin =
  np_api :: "'w host_api option"
  np_host_ctx :: nat

section \<open>Provider vtables\<close>

record sdk =
  sizeof_vtable :: nat
  GN_TRUST_UNTRUSTED :: nat
  GN_TRUST_PEER :: nat
  GN_TRUST_LOOPBACK :: nat
  GN_TRUST_INTRA_NODE :: nat
  GN_SEC_PROVIDES_E2E_ENCRYPTION :: "32 word"
  GN_SEC_PROVIDES_AUTHENTICATION :: "32 word"
  GN_SEC_PROVIDES_FORWARD_SECRECY :: "32 word"
  GN_SDK_VERSION_MAJOR :: "32 word"
  GN_SDK_VERSION_MINOR :: "32 word"
  GN_SDK_VERSION_PATCH :: "32 word"

definition kProviderIdXX :: string where
  "kProviderIdXX = ''noise''"

definition kProviderIdIK :: string where
  "kProviderIdIK = ''noise-ik''"

definition noise_provider_id_xx :: "'w NoisePlugin option \<Rightarrow> string" where
  "noise_provider_id_xx self = kProviderIdXX"

definition noise_provider_id_ik :: "'w NoisePlugin option \<Rightarrow> string" where
  "noise_provider_id_ik self = kProviderIdIK"

text \<open>
  The \<^verbatim>\<open>destroy\<close> entry returns what is left of the plugin instance, like \<open>gn_plugin_shutdown\<close> below: it
  leaves the instance to that entry.
\<close>

definition noise_destroy :: "'w NoisePlugin option \<Rightarrow> 'w NoisePlugin option" where
  "noise_destroy self = self"

definition noise_allowed_trust_mask :: "sdk \<Rightarrow> 'w NoisePlugin option \<Rightarrow> 32 word" where
  "noise_allowed_trust_mask K self =
     push_bit (GN_TRUST_UNTRUSTED K) 1 OR push_bit (GN_TRUST_PEER K) 1 OR
     push_bit (GN_TRUST_LOOPBACK K) 1 OR push_bit (GN_TRUST_INTRA_NODE K) 1"

definition noise_provides_flags :: "sdk \<Rightarrow> 'w NoisePlugin option \<Rightarrow> 32 word" where
  "noise_provides_flags K self =
     GN_SEC_PROVIDES_E2E_ENCRYPTION K OR GN_SEC_PROVIDES_AUTHENTICATION K OR
     GN_SEC_PROVIDES_FORWARD_SECRECY K"

text \<open>
  All slots of the vtable. The entries that work on a session ignore the plugin instance they are
  given, so that argument is left out of their types; the others take it.
\<close>

record ('h, 'w) vtable =
  vt_api_size :: nat
  vt_provider_id :: "'w NoisePlugin option \<Rightarrow> string"
  vt_handshake_open :: "'h sodium \<Rightarrow> bool \<Rightarrow> gn_handshake_role \<Rightarrow> bytes option \<Rightarrow> bytes option \<Rightarrow>
    bytes option \<Rightarrow> NoiseSession option option \<Rightarrow> gn_result \<times> NoiseSession option option"
  vt_handshake_step :: "'h sodium \<Rightarrow> bytes \<Rightarrow> bool \<Rightarrow> NoiseSession option \<Rightarrow> bytes \<Rightarrow>
    gn_secure_buffer option \<Rightarrow> (gn_result \<times> NoiseSession option \<times> gn_secure_buffer option) outcome"
  vt_handshake_complete :: "NoiseSession option \<Rightarrow> int"
  vt_export_transport_keys :: "'h sodium \<Rightarrow> nat \<Rightarrow> NoiseSession option \<Rightarrow> gn_handshake_keys option \<Rightarrow>
    gn_result \<times> NoiseSession option \<times> gn_handshake_keys option"
  vt_encrypt :: "'h sodium \<Rightarrow> bool \<Rightarrow> NoiseSession option \<Rightarrow> bytes \<Rightarrow>
    gn_secure_buffer option \<Rightarrow> (gn_result \<times> NoiseSession option \<times> gn_secure_buffer option) outcome"
  vt_decrypt :: "'h sodium \<Rightarrow> bool \<Rightarrow> NoiseSession option \<Rightarrow> bytes \<Rightarrow>
    gn_secure_buffer option \<Rightarrow> (gn_result \<times> NoiseSession option \<times> gn_secure_buffer option) outcome"
  vt_rekey :: "'h sodium \<Rightarrow> NoiseSession option \<Rightarrow> gn_result \<times> NoiseSession option"
  vt_handshake_close :: "'h sodium \<Rightarrow> NoiseSession option \<Rightarrow> NoiseSession option"
  vt_destroy :: "'w NoisePlugin option \<Rightarrow> 'w NoisePlugin option"
  vt_allowed_trust_mask :: "'w NoisePlugin option \<Rightarrow> 32 word"
  vt_provides_flags :: "'w NoisePlugin option \<Rightarrow> 32 word"

definition make_vtable :: "sdk \<Rightarrow> Pattern \<Rightarrow> ('h, 'w) vtable" where
  "make_vtable K p =
     \<lparr>vt_api_size = sizeof_vtable K,
      vt_provider_id = (if p = IK then noise_provider_id_ik else noise_provider_id_xx),
      vt_handshake_open = (if p = IK then noise_handshake_open_ik else noise_handshake_open_xx),
      vt_handshake_step = noise_handshake_step,
      vt_handshake_complete = noise_handshake_complete,
      vt_export_transport_keys = noise_export_transport_keys,
      vt_encrypt = noise_encrypt, vt_decrypt = noise_decrypt, vt_rekey = noise_rekey,
      vt_handshake_close = noise_handshake_close,
      vt_destroy = noise_destroy,
      vt_allowed_trust_mask = noise_allowed_trust_mask K,
      vt_provides_flags = noise_provides_flags K\<rparr>"

definition kVtableXX :: "sdk \<Rightarrow> ('h, 'w) vtable" where
  "kVtableXX K = make_vtable K XX"

definition kVtableIK :: "sdk \<Rightarrow> ('h, 'w) vtable" where
  "kVtableIK K = make_vtable K IK"

section \<open>Descriptor\<close>

definition kProvidesList :: "string list" where
  "kProvidesList = [''gn.security.noise'', ''gn.security.noise-ik'']"

datatype gn_plugin_kind = GN_PLUGIN_KIND_SECURITY

record gn_plugin_descriptor =
  pd_name :: string
  pd_version :: string
  pd_hot_reload_safe :: int
  pd_ext_requires :: "string list option"
  pd_ext_provides :: "string list option"
  pd_kind :: gn_plugin_kind
  pd_inject_targets :: "string list option"

definition kDescriptor :: gn_plugin_descriptor where
  "kDescriptor =
     \<lparr>pd_name = ''goodnet_security_noise'', pd_version = ''0.1.0'', pd_hot_reload_safe = 0,
      pd_ext_requires = None, pd_ext_provides = Some kProvidesList,
      pd_kind = GN_PLUGIN_KIND_SECURITY, pd_inject_targets = None\<rparr>"

section \<open>Plugin entries\<close>

definition gn_plugin_sdk_version ::
  "sdk \<Rightarrow> 32 word option \<Rightarrow> 32 word option \<Rightarrow> 32 word option \<Rightarrow>
     32 word option \<times> 32 word option \<times> 32 word option" where
  "gn_plugin_sdk_version K major minor patch =
     (map_option (\<lambda>_. GN_SDK_VERSION_MAJOR K) major,
      map_option (\<lambda>_. GN_SDK_VERSION_MINOR K) minor,
      map_option (\<lambda>_. GN_SDK_VERSION_PATCH K) patch)"

definition gn_plugin_init ::
  "'h sodium \<Rightarrow> bool \<Rightarrow> 'w host_api option \<Rightarrow> 'w NoisePlugin option option \<Rightarrow>
     gn_result \<times> 'w NoisePlugin option option" where
  "gn_plugin_init S new_ok api out_self =
     (if api = None \<or> out_self = None then (GN_ERR_NULL_ARG, out_self)
      else if sodium_init S < 0 then (GN_ERR_NULL_ARG, out_self)
      else if \<not> new_ok then (GN_ERR_OUT_OF_MEMORY, out_self)
      else (GN_OK, Some (Some \<lparr>np_api = api, np_host_ctx = ha_host_ctx (the api)\<rparr>)))"

definition gn_plugin_register :: "'w NoisePlugin option \<Rightarrow> 'w \<Rightarrow> gn_result \<times> 'w" where
  "gn_plugin_register self w =
     (case self of
        None \<Rightarrow> (GN_ERR_NULL_ARG, w)
      | Some p \<Rightarrow>
          (case Option.bind (np_api p) ha_register_security of
             None \<Rightarrow> (GN_ERR_NOT_IMPLEMENTED, w)
           | Some register_security \<Rightarrow>
               (let (rc, w) = register_security (np_host_ctx p) kProviderIdXX XX w in
                if rc \<noteq> GN_OK then (rc, w)
                else
                  (let (_, w) = register_security (np_host_ctx p) kProviderIdIK IK w in (GN_OK, w)))))"

definition gn_plugin_unregister :: "'w NoisePlugin option \<Rightarrow> 'w \<Rightarrow> gn_result \<times> 'w" where
  "gn_plugin_unregister self w =
     (case self of
        None \<Rightarrow> (GN_ERR_NULL_ARG, w)
      | Some p \<Rightarrow>
          (case Option.bind (np_api p) ha_unregister_security of
             None \<Rightarrow> (GN_OK, w)
           | Some unregister_security \<Rightarrow>
               (let (_, w) = unregister_security (np_host_ctx p) kProviderIdIK w;
                    (_, w) = unregister_security (np_host_ctx p) kProviderIdXX w
                in (GN_OK, w))))"

text \<open>\<^verbatim>\<open>delete\<close> of the plugin instance; nothing of it remains.\<close>

definition gn_plugin_shutdown :: "'w NoisePlugin option \<Rightarrow> 'w NoisePlugin option" where
  "gn_plugin_shutdown self = None"

definition gn_plugin_descriptor_entry :: gn_plugin_descriptor where
  "gn_plugin_descriptor_entry = kDescriptor"

section \<open>Hosts\<close>

text \<open>
  What the plugin's entries rely on of a host registry, seen through the partial map \<open>view\<close> from
  provider ids to registered vtables: a successful registration adds the id and nothing else, a
  failed one changes nothing, and an unregistration removes at most that id.
\<close>

definition registry_ok :: "('w \<Rightarrow> string \<rightharpoonup> Pattern) \<Rightarrow> 'w host_api \<Rightarrow> bool" where
  "registry_ok view api \<longleftrightarrow>
     (\<forall>reg. ha_register_security api = Some reg \<longrightarrow>
        (\<forall>ctx i v w. view (snd (reg ctx i v w)) =
           (if fst (reg ctx i v w) = GN_OK then (view w)(i \<mapsto> v) else view w))) \<and>
     (\<forall>unreg. ha_unregister_security api = Some unreg \<longrightarrow>
        (\<forall>ctx i w. view (snd (unreg ctx i w)) = (view w)(i := None)))"

text \<open>A registry with a bounded number of slots, as an association list.\<close>

definition slot_register :: "nat \<Rightarrow> nat \<Rightarrow> string \<Rightarrow> Pattern \<Rightarrow> (string \<times> Pattern) list \<Rightarrow>
    gn_result \<times> (string \<times> Pattern) list" where
  "slot_register slots ctx i v w =
     (if slots \<le> length w then (GN_ERR_LIMIT_REACHED, w) else (GN_OK, (i, v) # w))"

definition slot_unregister :: "nat \<Rightarrow> string \<Rightarrow> (string \<times> Pattern) list \<Rightarrow>
    gn_result \<times> (string \<times> Pattern) list" where
  "slot_unregister ctx i w =
     (if i \<in> fst ` set w then GN_OK else GN_ERR_NOT_FOUND, filter (\<lambda>e. fst e \<noteq> i) w)"

definition slot_host :: "nat \<Rightarrow> (string \<times> Pattern) list host_api" where
  "slot_host slots = \<lparr>ha_host_ctx = 0, ha_register_security = Some (slot_register slots),
     ha_unregister_security = Some slot_unregister\<rparr>"

lemma map_of_filter_neq: "map_of (filter (\<lambda>e. fst e \<noteq> i) w) = (map_of w)(i := None)"
  by (induction w) (auto simp: fun_eq_iff)

lemma slot_host_ok: "registry_ok map_of (slot_host slots)"
  by (simp add: registry_ok_def slot_host_def slot_register_def slot_unregister_def map_of_filter_neq)

lemma provider_ids_differ [simp]: "kProviderIdXX \<noteq> kProviderIdIK" "kProviderIdIK \<noteq> kProviderIdXX"
  by (simp_all add: kProviderIdXX_def kProviderIdIK_def)

text \<open>
  The vtable that a registered pointer refers to, and what registration leaves in the host: a new
  entry is one of the two providers under its own id.
\<close>

fun vtable_of :: "sdk \<Rightarrow> Pattern \<Rightarrow> ('h, 'w) vtable" where
  "vtable_of K XX = kVtableXX K"
| "vtable_of K IK = kVtableIK K"

lemma vtable_of: "vtable_of K P = make_vtable K P"
  by (cases P) (simp_all add: kVtableXX_def kVtableIK_def)

lemma registered_provider:
  assumes "registry_ok view api" and "np_api p = Some api" and "gn_plugin_register (Some p) w = (GN_OK, w')"
    and "view w i = None" "view w' i = Some P"
  shows "i = (if P = IK then kProviderIdIK else kProviderIdXX)"
proof -
  from assms(2,3) obtain reg where reg: "ha_register_security api = Some reg"
    by (cases "ha_register_security api") (simp_all add: gn_plugin_register_def)
  let ?w = "snd (reg (np_host_ctx p) kProviderIdXX XX w)"
  have w': "w' = snd (reg (np_host_ctx p) kProviderIdIK IK ?w)"
    and xx: "fst (reg (np_host_ctx p) kProviderIdXX XX w) = GN_OK"
    using assms(2,3) reg by (auto simp: gn_plugin_register_def case_prod_unfold Let_def split: if_splits)
  have law: "view (snd (reg ctx j v u)) = (if fst (reg ctx j v u) = GN_OK then (view u)(j \<mapsto> v) else view u)" for ctx j v u
    using assms(1) reg by (simp add: registry_ok_def)
  have "view w' i \<in> {Some IK | _. i = kProviderIdIK} \<union> {Some XX | _. i = kProviderIdXX} \<union> {None}"
    unfolding w' law [of _ kProviderIdIK] law [of _ kProviderIdXX] using xx assms(4) by auto
  with assms(5) show ?thesis by auto
qed

section \<open>Properties\<close>

text \<open>
  C39. Registration: with a host that implements both slots, registering the plugin reports the
  host's answer for the XX provider. If that is refused nothing is registered; if it is accepted
  the XX provider is registered under its id, the IK provider additionally if the host accepts it,
  and the call succeeds either way. A later unregistration removes both ids and succeeds, so that
  every other registration is as before.
\<close>

theorem plugin_registration:
  fixes view :: "'w \<Rightarrow> string \<rightharpoonup> Pattern"
  assumes "registry_ok view api" and "ha_register_security api = Some reg"
    and "ha_unregister_security api = Some unreg" and "np_api p = Some api"
  shows "let (xx, w1) = reg (np_host_ctx p) kProviderIdXX XX w;
             (rc, w') = gn_plugin_register (Some p) w;
             (rc', w'') = gn_plugin_unregister (Some p) w' in
    rc = xx \<and> rc' = GN_OK \<and>
    (xx \<noteq> GN_OK \<longrightarrow> view w' = view w) \<and>
    (xx = GN_OK \<longrightarrow> view w' kProviderIdXX = Some XX \<and>
       view w' kProviderIdIK = (if fst (reg (np_host_ctx p) kProviderIdIK IK w1) = GN_OK
                                then Some IK else view w kProviderIdIK)) \<and>
    view w'' = (view w)(kProviderIdXX := None, kProviderIdIK := None)"
  using assms
  by (auto simp: registry_ok_def gn_plugin_register_def gn_plugin_unregister_def Let_def case_prod_unfold
      fun_eq_iff)

theorem plugin_registration_witness:
  "let p = \<lparr>np_api = Some (slot_host 1), np_host_ctx = 0\<rparr>;
       (rc, w') = gn_plugin_register (Some p) [];
       (rc', w'') = gn_plugin_unregister (Some p) w' in
   rc = GN_OK \<and> rc' = GN_OK \<and> map_of w' kProviderIdXX = Some XX \<and> map_of w' kProviderIdIK = None \<and>
   map_of w'' = Map.empty"
proof -
  let ?p = "\<lparr>np_api = Some (slot_host 1), np_host_ctx = 0\<rparr>"
  have slots: "ha_register_security (slot_host 1) = Some (slot_register 1)"
    "ha_unregister_security (slot_host 1) = Some slot_unregister" "np_api ?p = Some (slot_host 1)"
    by (simp_all add: slot_host_def)
  have xx: "slot_register 1 (np_host_ctx ?p) kProviderIdXX XX [] = (GN_OK, [(kProviderIdXX, XX)])"
    "fst (slot_register 1 (np_host_ctx ?p) kProviderIdIK IK [(kProviderIdXX, XX)]) \<noteq> GN_OK"
    by (simp_all add: slot_register_def)
  from plugin_registration [OF slot_host_ok slots, of "[]"] xx show ?thesis
    by (simp add: Let_def case_prod_unfold fun_eq_iff)
qed

end
