(* ===== verification/Noise_IK.thy ===== *)
theory Noise_IK
  imports Handshake_Run
begin

text \<open>
  The second IK message. The specification has \<open>e, ee, se\<close>; the code agrees on the initiator's
  ephemeral and the responder's static key instead of the initiator's static and the responder's
  ephemeral key. The two sides of the program are consistent with each other, but not with the
  specification, and the initiator's static secret plays no part in the message.
\<close>

section \<open>The static secret of the initiator\<close>

text \<open>A command that neither reads nor writes the static secret.\<close>

definition ignores_static :: "(HandshakeState \<times> 'x) command \<Rightarrow> bool" where
  "ignores_static c \<longleftrightarrow> (\<forall>hs x sk. c (hs\<lparr>hs_s_sk := sk\<rparr>, x) =
     bind_outcome (c (hs, x)) (\<lambda>(ok, hs', x'). Returns (ok, hs'\<lparr>hs_s_sk := sk\<rparr>, x')))"

lemma ignores_staticD:
  "ignores_static c \<Longrightarrow> c (hs\<lparr>hs_s_sk := sk\<rparr>, x) =
     bind_outcome (c (hs, x)) (\<lambda>(ok, hs', x'). Returns (ok, hs'\<lparr>hs_s_sk := sk\<rparr>, x'))"
  by (simp add: ignores_static_def)

lemma ignores_static_read_e: "ignores_static (read_e S m)"
  by (simp add: ignores_static_def read_e_def Let_def sym_of_def)

lemma ignores_static_mix_dh:
  assumes "\<And>hs k. sk (hs\<lparr>hs_s_sk := k\<rparr>) = sk hs" "\<And>hs k. pk (hs\<lparr>hs_s_sk := k\<rparr>) = pk hs"
  shows "ignores_static (mix_dh S sk pk)"
  using assms by (simp add: ignores_static_def mix_dh_def sym_of_def split: option.splits)

lemma ignores_static_seq: "list_all ignores_static cs \<Longrightarrow> ignores_static (run_seq cs)"
proof (induction cs)
  case Nil
  then show ?case by (simp add: ignores_static_def)
next
  case (Cons c cs)
  then have c: "ignores_static c" and cs: "ignores_static (run_seq cs)" by simp_all
  have "run_seq (c # cs) (hs\<lparr>hs_s_sk := sk\<rparr>, x) = bind_outcome (run_seq (c # cs) (hs, x))
      (\<lambda>(ok, hs', x'). Returns (ok, hs'\<lparr>hs_s_sk := sk\<rparr>, x'))" for hs sk x
    by (cases "c (hs, x)") (auto simp: ignores_staticD [OF c] ignores_staticD [OF cs])
  then show ?case unfolding ignores_static_def by blast
qed

section \<open>Closed forms of the computable library\<close>

lemma toy_blake2b: "blake2b toy_sodium d = sum_list d # zeros 63"
  by (simp add: blake2b_def toy_sodium_def toy_hash_def)

lemma toy_blake2b_pair: "blake2b_pair toy_sodium a b = (sum_list a + sum_list b) # zeros 63"
  by (simp add: blake2b_pair_append toy_blake2b)

text \<open>What a key of at most one block adds to the sum of the message.\<close>

definition toy_block :: "bytes \<Rightarrow> byte" where
  "toy_block k =
     (let b = k @ zeros (128 - length k) in
      sum_list (map (\<lambda>x. x XOR 0x5c) b) + sum_list (map (\<lambda>x. x XOR 0x36) b))"

definition toy_mac :: "byte \<Rightarrow> byte" where
  "toy_mac x = (x XOR 0x5c) + (x XOR 0x36) + 0x6E"

lemma toy_hmac:
  "length k \<le> 128 \<Longrightarrow> hmac_blake2b toy_sodium k m = (toy_block k + sum_list m) # zeros 63"
  by (cases "k = []")
    (simp_all add: hmac_blake2b_def prepare_key_def xor_const_def memcpy_def toy_blake2b_pair toy_block_def
      sum_list_replicate Let_def)

lemma toy_block_mac [simp]: "toy_block (x # zeros 63) = toy_mac x"
  by (simp add: toy_block_def toy_mac_def sum_list_replicate Let_def)

lemma toy_hkdf2:
  "length k \<le> 128 \<Longrightarrow> hkdf2 toy_sodium k ikm =
     (let t = toy_mac (toy_block k + sum_list ikm) in
      \<lparr>pair_output1 = (t + 1) # zeros 63, pair_output2 = (t + (t + 1) + 2) # zeros 63\<rparr>)"
  by (simp add: hkdf2_def toy_hmac hmac.two_parts sum_list_replicate Let_def)

definition toy_sk :: "byte \<Rightarrow> bytes" where
  "toy_sk x = 0 # x # zeros 30"

definition toy_pk :: "byte \<Rightarrow> bytes" where
  "toy_pk x = 9 # x # zeros 30"

definition toy_pair :: "byte \<Rightarrow> Keypair" where
  "toy_pair x = \<lparr>kp_pk = toy_pk x, kp_sk = toy_sk x\<rparr>"

lemma toy_pair_pk: "kp_pk (toy_pair x) = toy_pk x"
  by (simp add: toy_pair_def)

lemma length_toy_keys [simp]: "length (toy_sk x) = 32" "length (toy_pk x) = 32"
  by (simp_all add: toy_sk_def toy_pk_def)

lemma toy_base: "crypto_scalarmult_base toy_sodium (toy_sk x) = toy_pk x"
  by (simp add: toy_sodium_def toy_sk_def toy_pk_def)

lemma toy_pair_own: "own_keypair toy_sodium (kp_sk (toy_pair x)) (kp_pk (toy_pair x))"
  by (simp add: own_keypair_def toy_pair_def toy_base)

lemma toy_dh: "dh toy_sodium (toy_sk x) (toy_pk y) = Some (9 # (x + y) # zeros 30)"
  by (simp add: dh_def toy_sodium_def toy_sk_def toy_pk_def all_zero_def)

text \<open>The chaining key of a new IK handshake is the padded protocol name.\<close>

definition ik_name :: bytes where
  "ik_name = memcpy (zeros HASHLEN) (protocol_name IK) (length (protocol_name IK))"

lemma ik_name_block: "toy_block ik_name = 38"
  by code_simp

section \<open>The two IK messages in terms of the chaining key\<close>

lemma encrypt_and_hash_ck: "encrypt_and_hash S p st = Returns (c, st') \<Longrightarrow> ss_ck st' = ss_ck st"
  by (auto simp: encrypt_and_hash_def mix_hash_def Let_def)

lemma fresh_ik_ck: "ss_ck (hs_symmetric (HandshakeState_new S IK i a (Some rs))) = ik_name"
  by (simp add: HandshakeState_new_def sym_of_def mix_hash_def sym_initialize_def ik_name_def Let_def) (simp add: ascii_def)

text \<open>What the initiator holds after its first message.\<close>

lemma ik_first_written:
  assumes "write_message S e p (HandshakeState_new S IK True a (Some rs)) = Returns (Some m, i)"
    and "dh S e rs = Some z1" "dh S (kp_sk a) rs = Some z2"
  shows "hs_e_sk i = e \<and> hs_s_sk i = kp_sk a \<and> hs_rs i = rs \<and> hs_initiator i \<and> hs_step i = 1 \<and>
    ss_ck (hs_symmetric i) = pair_output1 (hkdf2 S (pair_output1 (hkdf2 S ik_name z1)) z2)"
  using assms
  by (auto simp: write_message_def write_switch_def fresh_fields fresh_ik_initiator fresh_ik_ck is_complete_def write_e_def mix_dh_def
      encrypt_static_def encrypt_payload_def encrypt_field_def generate_keypair_def sym_of_def mix_key_def mix_hash_def
      Let_def dest!: encrypt_and_hash_ck split: if_splits)



text \<open>Both readers of the second message start with the tokens \<open>e, ee\<close> and differ in the last agreement.\<close>

lemma ik_second_read:
  assumes i: "wf_hs i" "hs_pattern i = IK" "hs_step i = 1" "hs_initiator i"
    and m: "32 \<le> length m" "take 32 m = pk"
    and dh: "dh S (hs_e_sk i) pk = Some z3" "dh S (hs_e_sk i) (hs_rs i) = Some z4" "dh S (hs_s_sk i) pk = Some z5"
  defines "st \<equiv> mix_key S z3 (mix_hash S pk (hs_symmetric i))"
  shows "read_message S m i = Returns (Some p, i1) \<Longrightarrow>
      \<exists>ss. decrypt_and_hash S (drop 32 m) (mix_key S z4 st) = Returns (Some p, ss)"
    and "decrypt_and_hash S (drop 32 m) (mix_key S z5 st) = Returns (None, ss) \<Longrightarrow>
      \<exists>i2. pattern_read (noise_pattern IK) S m i = Returns (None, i2)"
proof -
  have re: "memcpy (hs_re i) m 32 = pk" using i(1) m by (simp add: memcpy_def wf_hs_def wf_keys_def)
  have more: "\<not> is_complete i" using i by (simp add: is_complete_def wf_hs_def)
  show "\<exists>ss. decrypt_and_hash S (drop 32 m) (mix_key S z4 st) = Returns (Some p, ss)"
    if "read_message S m i = Returns (Some p, i1)"
    using that more i(2,3) m re dh
    by (auto simp: read_message_def read_switch_def read_e_def mix_dh_def sym_of_def st_def Let_def split: option.splits)
  show "\<exists>i2. pattern_read (noise_pattern IK) S m i = Returns (None, i2)"
    if "decrypt_and_hash S (drop 32 m) (mix_key S z5 st) = Returns (None, ss)"
    using that i m re dh
    by (auto simp: pattern_read_def read_e_def mix_dh_def sym_of_def st_def Let_def split: option.splits)
qed

lemma ik_second_written:
  assumes "write_message S e p r = Returns (Some m, r')" "hs_pattern r = IK" "hs_step r = 1"
    and "length (crypto_scalarmult_base S e) = 32"
  shows "32 \<le> length m \<and> take 32 m = crypto_scalarmult_base S e"
  using assms
  by (auto simp: write_message_def write_switch_def write_e_def mix_dh_def encrypt_payload_def encrypt_field_def
      generate_keypair_def sym_of_def Let_def split: if_splits option.splits)

section \<open>A message under the wrong key\<close>

lemma toy_decrypt: "crypto_aead_decrypt toy_sodium = toy_open"
  by (simp add: toy_sodium_def)

lemma toy_open_wrong:
  "toy_open c ad n k = Some p \<Longrightarrow> sum_list k' \<noteq> sum_list k \<Longrightarrow> toy_open c ad n k' = None"
  by (auto simp: toy_open_def toy_tag_def Let_def split: if_splits)

lemma toy_wrong_key:
  assumes dec: "decrypt_and_hash toy_sodium c (mix_key toy_sodium z st) = Returns (Some p, st')"
    and ck: "length (ss_ck st) \<le> 128"
    and ne: "2 * toy_mac (toy_block (ss_ck st) + sum_list z) \<noteq> 2 * toy_mac (toy_block (ss_ck st) + sum_list z')"
  shows "\<exists>ss. decrypt_and_hash toy_sodium c (mix_key toy_sodium z' st) = Returns (None, ss)"
proof -
  define key where "key y = (let t = toy_mac (toy_block (ss_ck st) + sum_list y) in (2 * t + 3) # zeros 31)" for y
  have cipher: "ss_cipher (mix_key toy_sodium y st) = initialize_key (key y) (ss_cipher st)"
    "ss_h (mix_key toy_sodium y st) = ss_h st" for y
    using ck by (simp_all add: mix_key_def toy_hkdf2 memcpy_def key_def Let_def algebra_simps)
  from dec have "16 \<le> length c" "toy_open c (ss_h st) (encode_nonce 0) (key z) = Some p"
    by (auto simp: decrypt_and_hash_def decrypt_with_ad_def cipher initialize_key_def Let_def toy_decrypt
        split: if_splits option.splits)
  moreover have "sum_list (key z') \<noteq> sum_list (key z)"
    using ne by (simp add: key_def Let_def sum_list_replicate)
  ultimately have "16 \<le> length c" "toy_open c (ss_h st) (encode_nonce 0) (key z') = None"
    by (simp_all add: toy_open_wrong)
  then show ?thesis
    by (simp add: decrypt_and_hash_def decrypt_with_ad_def cipher initialize_key_def toy_decrypt Let_def)
qed

section \<open>A run\<close>

lemma ik_toy_run:
  obtains m1 i r m2 r' i1 i2 where
    "exchange toy_sodium (toy_sk 1) [] (HandshakeState_new toy_sodium IK True (toy_pair 2) (Some (toy_pk 4)))
       (HandshakeState_new toy_sodium IK False (toy_pair 4) None) = Returns (Some (m1, [], i, r))"
    "read_message toy_sodium m2 i = Returns (Some [], i1)" "hs_pattern i = IK" "hs_step i = 1"
    "hs_s_sk i = toy_sk 2" "write_message toy_sodium (toy_sk 8) [] r = Returns (Some m2, r')"
    "pattern_read (noise_pattern IK) toy_sodium m2 i = Returns (None, i2)"
proof -
  let ?i = "HandshakeState_new toy_sodium IK True (toy_pair 2) (Some (toy_pk 4))"
  let ?r = "HandshakeState_new toy_sodium IK False (toy_pair 4) None"
  have "turn_ok toy_sodium (no_kn\<lparr>kn_rs := True\<rparr>) (implemented_pattern IK) ?i ?r"
    by (rule fresh_synced [OF toy_run_laws toy_pair_own toy_pair_own]) (auto simp: toy_pair_def)
  then have turn0: "turn_ok toy_sodium (no_kn\<lparr>kn_rs := True\<rparr>) ([TokE, TokES, TokS, TokSS] # [[TokE, TokEE, TokES]]) ?i ?r"
    by simp
  from turn_step [OF toy_run_laws _ turn0, of "toy_sk 1" "[]"] obtain m1 i r K
    where ex1: "exchange toy_sodium (toy_sk 1) [] ?i ?r = Returns (Some (m1, [], i, r))"
      and turn1: "turn_ok toy_sodium K [[TokE, TokEE, TokES]] r i"
      and same: "same_session (?i\<lparr>hs_step := hs_step ?i + 1\<rparr>) i" "same_session (?r\<lparr>hs_step := hs_step ?r + 1\<rparr>) r" by auto
  from turn_step [OF toy_run_laws _ turn1, of "toy_sk 8" "[]"] obtain m2 r' i1
    where ex2: "exchange toy_sodium (toy_sk 8) [] r i = Returns (Some (m2, [], r', i1))" by auto
  have w1: "write_message toy_sodium (toy_sk 1) [] ?i = Returns (Some m1, i)"
    and w2: "write_message toy_sodium (toy_sk 8) [] r = Returns (Some m2, r')"
    and r2: "read_message toy_sodium m2 i = Returns (Some [], i1)"
    using ex1 ex2 by (auto simp: exchange_def split: option.splits)
  have pat: "hs_pattern i = IK" "hs_pattern r = IK" "hs_step r = 1" and wf: "wf_hs i"
    using same turn1 by (simp_all add: same_session_def fresh_fields turn_ok_def)
  from ik_first_written [OF w1 toy_dh] have st: "hs_e_sk i = toy_sk 1" "hs_s_sk i = toy_sk 2" "hs_rs i = toy_pk 4"
      "hs_initiator i" "hs_step i = 1" "ss_ck (hs_symmetric i) = pair_output1 (hkdf2 toy_sodium
        (pair_output1 (hkdf2 toy_sodium ik_name (9 # (1 + 4) # zeros 30))) (9 # (2 + 4) # zeros 30))"
    using toy_dh [of 2 4] by (simp_all add: toy_pair_def)
  have m2: "32 \<le> length m2" "take 32 m2 = toy_pk 8"
    using ik_second_written [OF w2 pat(2,3)] by (simp_all add: toy_base)
  note second = ik_second_read [OF wf pat(1) st(5,4) m2, unfolded st, OF toy_dh toy_dh toy_dh]
  let ?st = "mix_key toy_sodium (9 # (1 + 8) # zeros 30) (mix_hash toy_sodium (toy_pk 8) (hs_symmetric i))"
  from second(1) [OF r2] obtain ss
    where dec: "decrypt_and_hash toy_sodium (drop 32 m2) (mix_key toy_sodium (9 # (1 + 4) # zeros 30) ?st) = Returns (Some [], ss)"
    by blast
  have "length ik_name \<le> 128" by (simp add: ik_name_def memcpy_def ascii_def)
  then have ck: "ss_ck ?st = 217 # zeros 63"
    by (simp add: mix_key_def mix_hash_def st(6) toy_hkdf2 ik_name_block sum_list_replicate Let_def) (simp add: toy_mac_def)
  have "2 * toy_mac (toy_mac 217 + 14) \<noteq> 2 * toy_mac (toy_mac 217 + 19)" by (simp add: toy_mac_def)
  with toy_wrong_key [OF dec, of "9 # (2 + 8) # zeros 30"] ck obtain ss'
    where "decrypt_and_hash toy_sodium (drop 32 m2) (mix_key toy_sodium (9 # (2 + 8) # zeros 30) ?st) = Returns (None, ss')"
    by (auto simp: sum_list_replicate)
  from second(2) [OF this] that [OF ex1 r2 pat(1) st(5,2) w2] show ?thesis by blast
qed

section \<open>Properties\<close>

text \<open>
  C19. The second IK message is not the one of the specification: there are a lawful library, two
  static key pairs and random draws such that the first IK message is exchanged successfully
  between a new initiator that knows the responder's key and a new responder, the message that the
  program's responder writes next is accepted by the program's initiator, and an initiator in the
  same state that interprets the tokens \<open>e, ee, se\<close> of the specification rejects that message.
\<close>

theorem ik_second_message_is_not_noise:
  "\<exists>(S :: bytes sodium) a b e1 e2 m1 i r m2 r' i1 i2.
     run_laws S \<and> aead_exact S \<and>
     own_keypair S (kp_sk a) (kp_pk a) \<and> own_keypair S (kp_sk b) (kp_pk b) \<and> length e1 = 32 \<and> length e2 = 32 \<and>
     exchange S e1 [] (HandshakeState_new S IK True a (Some (kp_pk b))) (HandshakeState_new S IK False b None) =
       Returns (Some (m1, [], i, r)) \<and>
     write_message S e2 [] r = Returns (Some m2, r') \<and>
     read_message S m2 i = Returns (Some [], i1) \<and>
     pattern_read (noise_pattern IK) S m2 i = Returns (None, i2)"
proof -
  obtain m1 i r m2 r' i1 i2
    where ex: "exchange toy_sodium (toy_sk 1) [] (HandshakeState_new toy_sodium IK True (toy_pair 2) (Some (kp_pk (toy_pair 4))))
        (HandshakeState_new toy_sodium IK False (toy_pair 4) None) = Returns (Some (m1, [], i, r))"
      and run: "write_message toy_sodium (toy_sk 8) [] r = Returns (Some m2, r')"
        "read_message toy_sodium m2 i = Returns (Some [], i1)"
        "pattern_read (noise_pattern IK) toy_sodium m2 i = Returns (None, i2)"
    unfolding toy_pair_pk by (rule ik_toy_run)
  show ?thesis
    by (intro exI conjI) (rule toy_run_laws toy_aead_exact toy_pair_own length_toy_keys(1) ex run)+
qed

text \<open>
  C20. The initiator's static secret does not enter the second IK message: reading the message
  with another static secret gives the same verdict, the same payload and the same state, up to the
  stored secret itself. The step therefore does not authenticate the initiator's static key.
\<close>

theorem ik_second_message_ignores_initiator_static:
  assumes "hs_pattern hs = IK" and "hs_step hs = 1"
  shows "read_message S message (hs\<lparr>hs_s_sk := sk\<rparr>) =
    bind_outcome (read_message S message hs) (\<lambda>(r, hs'). Returns (r, hs'\<lparr>hs_s_sk := sk\<rparr>))"
proof (cases "is_complete hs")
  case True
  then show ?thesis by (simp add: read_complete is_complete_def)
next
  case False
  let ?cmds = "[read_e S message, mix_dh S hs_e_sk hs_re, mix_dh S hs_e_sk hs_rs]"
  have switch: "read_switch S message hs = Some ?cmds"
    "read_switch S message (hs\<lparr>hs_s_sk := sk\<rparr>) = Some ?cmds"
    using assms by (simp_all add: read_switch_def)
  have "ignores_static (run_seq ?cmds)"
    by (rule ignores_static_seq) (simp add: ignores_static_read_e ignores_static_mix_dh)
  note seq = ignores_staticD [OF this, where hs = hs and sk = sk and x = 0]
  have "\<not> is_complete (hs\<lparr>hs_s_sk := sk\<rparr>)" using False by (simp add: is_complete_def)
  with False switch show ?thesis
    unfolding read_message_def seq
    by (cases "run_seq ?cmds (hs, 0)")
      (auto simp: seq Let_def bind_outcome_assoc case_prod_unfold simp del: run_seq.simps
        intro!: arg_cong2 [where f = bind_outcome] split: option.splits)
qed

theorem ik_second_message_ignores_initiator_static_witness:
  "\<exists>m1 i r m2 i'.
     exchange toy_sodium (toy_sk 1) [] (HandshakeState_new toy_sodium IK True (toy_pair 2) (Some (toy_pk 4)))
       (HandshakeState_new toy_sodium IK False (toy_pair 4) None) = Returns (Some (m1, [], i, r)) \<and>
     hs_s_sk i \<noteq> zeros 32 \<and> read_message toy_sodium m2 (i\<lparr>hs_s_sk := zeros 32\<rparr>) = Returns (Some [], i')"
proof -
  obtain m1 i r m2 i1
    where ex: "exchange toy_sodium (toy_sk 1) [] (HandshakeState_new toy_sodium IK True (toy_pair 2) (Some (toy_pk 4)))
        (HandshakeState_new toy_sodium IK False (toy_pair 4) None) = Returns (Some (m1, [], i, r))"
      and i: "hs_pattern i = IK" "hs_step i = 1" "hs_s_sk i = toy_sk 2"
      and acc: "read_message toy_sodium m2 i = Returns (Some [], i1)"
    by (rule ik_toy_run)
  have "sum_list (toy_sk 2) \<noteq> sum_list (zeros 32)" by (simp add: toy_sk_def sum_list_replicate)
  then have "hs_s_sk i \<noteq> zeros 32" using i(3) by metis
  moreover from ik_second_message_ignores_initiator_static [OF i(1,2), of toy_sodium m2 "zeros 32"] acc
  have "\<exists>i'. read_message toy_sodium m2 (i\<lparr>hs_s_sk := zeros 32\<rparr>) = Returns (Some [], i')" by auto
  ultimately show ?thesis using ex by blast
qed

end
