(* ===== verification/Handshake_Auth.thy ===== *)
theory Handshake_Auth
  imports Handshake_Run
begin

text \<open>
  What an accepted handshake message proves. With an exact AEAD a reader's state, the payload and
  the keys it learned determine the message: an accepted message cannot be altered and still be
  accepted with the same meaning. For the last XX message the accepted bytes are given in closed
  form: their payload is sealed under a key that depends on the agreement of the claimed static key
  with the responder's ephemeral key.
\<close>

section \<open>Reading determines the bytes\<close>

text \<open>The switch of \<open>read_message\<close> depends on the step only, not on the role.\<close>

lemma read_switch_step_tokens:
  assumes "wf_hs hs" "\<not> is_complete hs"
  shows "read_switch S message hs =
    Some (map (read_token S message (odd (hs_step hs))) (implemented_pattern (hs_pattern hs) ! nat (hs_step hs)))"
  using step_cases [OF assms] by (cases "hs_pattern hs") (auto simp: read_switch_def)

lemma implemented_pattern_distinct:
  assumes "wf_hs hs" "\<not> is_complete hs"
  shows "distinct (implemented_pattern (hs_pattern hs) ! nat (hs_step hs))"
  using step_cases [OF assms] by (cases "hs_pattern hs") auto

lemma mix_dh_frame:
  assumes "mix_dh S sk pk (hs, x) = Returns (ok, hs', x')"
  shows "hs_re hs' = hs_re hs \<and> hs_rs hs' = hs_rs hs \<and> x' = x"
  using assms by (auto simp: mix_dh_def split: option.splits)

lemma read_token_frame:
  assumes "read_token S m i t (hs, off) = Returns (ok, hs', off')"
  shows "(t \<noteq> TokE \<longrightarrow> hs_re hs' = hs_re hs) \<and> (t \<noteq> TokS \<longrightarrow> hs_rs hs' = hs_rs hs)"
  using assms
  by (cases t) (auto simp: read_e_def read_encrypted_static_def Let_def dest!: mix_dh_frame
      split: if_splits option.splits)

lemma read_tokens_frame:
  assumes "run_seq (map (read_token S m i) ts) (hs, off) = Returns (ok, hs', off')"
  shows "(TokE \<notin> set ts \<longrightarrow> hs_re hs' = hs_re hs) \<and> (TokS \<notin> set ts \<longrightarrow> hs_rs hs' = hs_rs hs)"
  using assms
proof (induction ts arbitrary: hs off)
  case Nil
  then show ?case by simp
next
  case (Cons t ts)
  then obtain b h1 o1 where t: "read_token S m i t (hs, off) = Returns (b, h1, o1)"
    and rest: "(if b then run_seq (map (read_token S m i) ts) (h1, o1) else Returns (False, h1, o1)) = Returns (ok, hs', off')"
    by auto
  have f: "(t \<noteq> TokE \<longrightarrow> hs_re h1 = hs_re hs) \<and> (t \<noteq> TokS \<longrightarrow> hs_rs h1 = hs_rs hs)"
    by (rule read_token_frame [OF t])
  show ?case
  proof (cases b)
    case True
    with rest Cons.IH [of h1 o1] f show ?thesis by auto
  next
    case False
    with rest f show ?thesis by auto
  qed
qed

lemma take_slice_eq:
  assumes "take n m = take n m'" "take k (drop n m) = take k (drop n m')"
  shows "take (n + k) m = take (n + k) m'"
  using assms by (simp add: take_add)

text \<open>One token read from two messages that agree so far.\<close>

lemma read_token_determines:
  assumes S: "aead_exact S" and wf: "wf_keys hs"
    and m: "read_token S m i t (hs, off) = Returns (True, a, o1)"
    and m': "read_token S m' i t (hs, off) = Returns (True, a', o2)"
    and pre: "take off m = take off m'" "off \<le> length m" "off \<le> length m'"
    and learn: "t = TokE \<longrightarrow> hs_re a = hs_re a'" "t = TokS \<longrightarrow> hs_rs a = hs_rs a'"
  shows "a = a' \<and> o1 = o2 \<and> take o1 m = take o1 m' \<and> o1 \<le> length m \<and> o1 \<le> length m'"
proof -
  consider "t = TokE" | "t = TokS" | "t \<notin> {TokE, TokS}" by blast
  then show ?thesis
  proof cases
    case 1
    with m m' learn(1) wf have "take 32 (drop off m) = take 32 (drop off m')"
      by (auto simp: read_e_def Let_def memcpy_def wf_keys_def split: if_splits)
    with take_slice_eq [OF pre(1) this] m m' 1 show ?thesis
      by (auto simp: read_e_def Let_def memcpy_def split: if_splits)
  next
    case 2
    let ?slice = "\<lambda>m. take 48 (drop off m)"
    from m m' 2 obtain p ss p' ss'
      where d: "decrypt_and_hash S (?slice m) (hs_symmetric hs) = Returns (Some p, ss)"
          "decrypt_and_hash S (?slice m') (hs_symmetric hs) = Returns (Some p', ss')"
        and l: "length p = 32" "length p' = 32" "off + 48 \<le> length m" "off + 48 \<le> length m'"
        and a: "a = hs\<lparr>hs_symmetric := ss, hs_rs := memcpy (hs_rs hs) p 32, hs_rs_known := True\<rparr>" "o1 = off + 48"
          "a' = hs\<lparr>hs_symmetric := ss', hs_rs := memcpy (hs_rs hs) p' 32, hs_rs_known := True\<rparr>" "o2 = off + 48"
      by (auto simp: read_encrypted_static_def Let_def split: if_splits option.splits)
    from a(1,3) l(1,2) wf learn(2) 2 have "p = p'" by (simp add: memcpy_def wf_keys_def)
    have ws: "wf_sym (hs_symmetric hs)" using wf by (simp add: wf_keys_def)
    from encrypt_decrypt_and_hash [OF S ws d(1)] encrypt_decrypt_and_hash [OF S ws d(2)] \<open>p = p'\<close>
    have "?slice m = ?slice m'" "ss = ss'" by simp_all
    with take_slice_eq [OF pre(1), of 48] a l \<open>p = p'\<close> show ?thesis by simp
  next
    case 3
    then have "read_token S m i t = mix_dh S (token_sk i t) (token_pk i t)"
      "read_token S m' i t = mix_dh S (token_sk i t) (token_pk i t)" by (cases t; simp)+
    with m m' pre mix_dh_frame [of S "token_sk i t" "token_pk i t" hs off True a o1] show ?thesis by auto
  qed
qed

lemma wf_keys_read_token:
  assumes "hash_ok S" "wf_keys hs" "read_token S m i t (hs, off) = Returns (ok, hs', off')"
  shows "wf_keys hs'"
proof -
  have "read_token S m i t \<in> read_cmds S m" by (cases t) (auto simp: read_cmds_def image_iff)
  from read_cmd_keeps [OF assms(1) this assms(2,3)] show ?thesis ..
qed

lemma read_tokens_determine:
  assumes S: "hash_ok S" "aead_exact S"
  shows "wf_keys hs \<Longrightarrow> distinct ts \<Longrightarrow>
    run_seq (map (read_token S m i) ts) (hs, off) = Returns (True, a, o1) \<Longrightarrow>
    run_seq (map (read_token S m' i) ts) (hs, off) = Returns (True, a', o2) \<Longrightarrow>
    take off m = take off m' \<Longrightarrow> off \<le> length m \<Longrightarrow> off \<le> length m' \<Longrightarrow>
    hs_re a = hs_re a' \<Longrightarrow> hs_rs a = hs_rs a' \<Longrightarrow>
    a = a' \<and> o1 = o2 \<and> take o1 m = take o1 m' \<and> wf_keys a"
proof (induction ts arbitrary: hs off)
  case Nil
  then show ?case by simp
next
  case (Cons t ts)
  from Cons.prems(3) obtain h1 p1 where t: "read_token S m i t (hs, off) = Returns (True, h1, p1)"
    and r: "run_seq (map (read_token S m i) ts) (h1, p1) = Returns (True, a, o1)"
    by (auto split: if_splits)
  from Cons.prems(4) obtain h2 p2 where t': "read_token S m' i t (hs, off) = Returns (True, h2, p2)"
    and r': "run_seq (map (read_token S m' i) ts) (h2, p2) = Returns (True, a', o2)"
    by (auto split: if_splits)
  have "t = TokE \<longrightarrow> hs_re h1 = hs_re h2" "t = TokS \<longrightarrow> hs_rs h1 = hs_rs h2"
    using read_tokens_frame [OF r] read_tokens_frame [OF r'] Cons.prems(2,8,9) by auto
  from read_token_determines [OF S(2) Cons.prems(1) t t' Cons.prems(5-7) this]
  have same: "h1 = h2" "p1 = p2" "take p1 m = take p1 m'" "p1 \<le> length m" "p1 \<le> length m'" by blast+
  from Cons.IH [OF wf_keys_read_token [OF S(1) Cons.prems(1) t] _ r _ same(3-5) Cons.prems(8,9)] same(1,2) r' Cons.prems(2)
  show ?case by auto
qed

lemma read_message_accepted:
  assumes wf: "wf_hs r" and read: "read_message S m r = Returns (Some p, r')"
  shows "\<exists>a off ss. run_seq (map (read_token S m (odd (hs_step r)))
        (implemented_pattern (hs_pattern r) ! nat (hs_step r))) (r, 0) = Returns (True, a, off) \<and>
      decrypt_and_hash S (drop off m) (hs_symmetric a) = Returns (Some p, ss) \<and>
      r' = a\<lparr>hs_symmetric := ss, hs_step := hs_step a + 1\<rparr> \<and> \<not> is_complete r"
  using read
proof (cases rule: read_message_cases)
  case (accepted cmds off hs1 ss plain)
  with read_switch_step_tokens [OF wf accepted(2), of S m] show ?thesis by auto
qed auto

lemma accepted_message_unique:
  assumes S: "hash_ok S" "aead_exact S" and wf: "wf_hs r"
    and m: "read_message S m r = Returns (Some p, a)" and m': "read_message S m' r = Returns (Some p, a')"
    and learn: "hs_re a = hs_re a'" "hs_rs a = hs_rs a'"
  shows "m = m' \<and> a = a'"
proof -
  let ?run = "\<lambda>m. run_seq (map (read_token S m (odd (hs_step r))) (implemented_pattern (hs_pattern r) ! nat (hs_step r))) (r, 0)"
  from read_message_accepted [OF wf m] obtain b off ss
    where b: "?run m = Returns (True, b, off)" "decrypt_and_hash S (drop off m) (hs_symmetric b) = Returns (Some p, ss)"
      "a = b\<lparr>hs_symmetric := ss, hs_step := hs_step b + 1\<rparr>" and more: "\<not> is_complete r" by blast
  from read_message_accepted [OF wf m'] obtain b' off' ss'
    where b': "?run m' = Returns (True, b', off')" "decrypt_and_hash S (drop off' m') (hs_symmetric b') = Returns (Some p, ss')"
      "a' = b'\<lparr>hs_symmetric := ss', hs_step := hs_step b' + 1\<rparr>" by blast
  have "wf_keys r" using wf by (simp add: wf_hs_def)
  from read_tokens_determine [OF S this implemented_pattern_distinct [OF wf more] b(1) b'(1)] learn b(3) b'(3)
  have same: "b = b'" "off = off'" "take off m = take off m'" "wf_keys b" by auto
  have ws: "wf_sym (hs_symmetric b)" using same(4) by (simp add: wf_keys_def)
  from encrypt_decrypt_and_hash [OF S(2) ws b(2)] encrypt_decrypt_and_hash [OF S(2) ws, of "drop off' m'" p ss'] b'(2) same
  have "drop off m = drop off m'" "ss = ss'" by simp_all
  with same b(3) b'(3) show ?thesis by (metis append_take_drop_id)
qed

section \<open>The last XX message\<close>

text \<open>After two messages of an honest XX run the initiator is about to write the last one.\<close>

lemma xx_before_last:
  assumes S: "run_laws S" and keys: "own_keypair S (kp_sk a) (kp_pk a)" "own_keypair S (kp_sk b) (kp_pk b)"
    and rnd: "length e1 = 32" "length e2 = 32"
  shows "\<exists>ms i r K. run_handshake S [(e1, p1), (e2, p2)]
      (HandshakeState_new S XX True a None) (HandshakeState_new S XX False b None) =
        Returns (Some (ms, [p1, p2], i, r)) \<and>
    turn_ok S K [[TokS, TokSE]] i r \<and> hs_s_pk i = kp_pk a"
proof -
  let ?i = "HandshakeState_new S XX True a None" and ?r = "HandshakeState_new S XX False b None"
  have "turn_ok S no_kn (implemented_pattern XX) ?i ?r"
    by (rule fresh_synced [OF S keys]) simp_all
  then have turn0: "turn_ok S no_kn ([TokE] # [[TokE, TokEE, TokS, TokES], [TokS, TokSE]]) ?i ?r" by simp
  from turn_step [OF S rnd(1) turn0, of p1] obtain m1 i1 r1 K1
    where ex1: "exchange S e1 p1 ?i ?r = Returns (Some (m1, p1, i1, r1))"
      and turn1: "turn_ok S K1 ([TokE, TokEE, TokS, TokES] # [[TokS, TokSE]]) r1 i1"
      and s1: "hs_s_pk i1 = kp_pk a" by (auto simp: same_session_def fresh_fields)
  from turn_step [OF S rnd(2) turn1, of p2] obtain m2 r2 i2 K2
    where ex2: "exchange S e2 p2 r1 i1 = Returns (Some (m2, p2, r2, i2))"
      and turn2: "turn_ok S K2 [[TokS, TokSE]] i2 r2" and s2: "hs_s_pk i2 = hs_s_pk i1"
    by (auto simp: same_session_def)
  from ex1 ex2 have "run_handshake S [(e1, p1), (e2, p2)] ?i ?r = Returns (Some ([m1, m2], [p1, p2], i2, r2))"
    by simp
  with turn2 s1 s2 show ?thesis by auto
qed

lemma turn_message:
  assumes S: "run_laws S" and rnd: "length rnd = 32" and turn: "turn_ok S K (ts # pats) w r"
  shows "\<exists>m w' r'. write_message S rnd payload w = Returns (Some m, w') \<and>
    read_message S m r = Returns (Some payload, r') \<and> hs_symmetric r' = hs_symmetric w' \<and>
    (TokS \<in> set ts \<longrightarrow> hs_rs r' = hs_s_pk w)"
proof -
  from turn_step [OF S rnd turn, of payload] obtain m w' r'
    where ex: "exchange S rnd payload w r = Returns (Some (m, payload, w', r'))"
      and turn': "turn_ok S (swap_kn (learn_all ts K)) pats r' w'"
      and same: "same_session (w\<lparr>hs_step := hs_step w + 1\<rparr>) w'" by blast
  have learned: "TokS \<in> set ts \<Longrightarrow> kn_ws (learn_all ts K)" for ts K
  proof (induction ts arbitrary: K)
    case (Cons t ts)
    have keep: "kn_ws K \<Longrightarrow> kn_ws (learn_all ts K)" for ts K
    proof (induction ts arbitrary: K)
      case (Cons t ts)
      then show ?case by (cases t) auto
    qed simp
    from Cons show ?case by (cases "t = TokS") (auto intro: keep)
  qed simp
  have "synced S (swap_kn (learn_all ts K)) r' w'" using turn' by (simp add: turn_ok_def)
  with learned [of ts K] same have "hs_symmetric r' = hs_symmetric w'" "TokS \<in> set ts \<longrightarrow> hs_rs r' = hs_s_pk w"
    by (auto simp: synced_def same_session_def)
  with ex show ?thesis by (auto simp: exchange_def split: option.splits)
qed

lemma turn_last:
  assumes turn: "turn_ok S K [[TokS, TokSE]] i r"
  shows "wf_hs r" "hs_step r = 2" "hs_pattern r = XX"
proof -
  show wf: "wf_hs r" using turn by (simp add: turn_ok_def)
  have rest: "[[TokS, TokSE]] = drop (nat (hs_step r)) (implemented_pattern (hs_pattern r))"
    using turn by (simp add: turn_ok_def)
  then have "\<not> is_complete r"
    using pattern_steps [OF wf] by (metis drop_eq_Nil list.distinct(1) not_le)
  from step_cases [OF wf this] have "hs_step r = 2 \<and> hs_pattern r = XX"
  proof (elim disjE)
    assume "hs_step r = 0"
    with rest show ?thesis by (cases "hs_pattern r") simp_all
  next
    assume "hs_step r = 1"
    with rest show ?thesis by (cases "hs_pattern r") simp_all
  qed
  then show "hs_step r = 2" "hs_pattern r = XX" by simp_all
qed

section \<open>What the last XX message is made of\<close>

text \<open>
  The sealed static key \<open>rs\<close>, then the payload \<open>p\<close> sealed with the key that the chaining key and the
  shared secret \<open>z\<close> give, over the transcript hash that includes the sealed static key.
\<close>

definition xx_last_message :: "'h sodium \<Rightarrow> SymmetricState \<Rightarrow> bytes \<Rightarrow> bytes \<Rightarrow> bytes \<Rightarrow> bytes" where
  "xx_last_message S st z rs p =
     (let c = ss_cipher st;
          sealed = crypto_aead_encrypt S rs (ss_h st) (encode_nonce (cs_n c)) (cs_k c);
          k = take CIPHER_KEY_BYTES (pair_output2 (hkdf2 S (ss_ck st) z))
      in sealed @ crypto_aead_encrypt S p (blake2b S (ss_h st @ sealed)) (encode_nonce 0) k)"

lemma opens_iff:
  assumes S: "aead_ok S" "aead_exact S" and st: "wf_sym st" "cs_has_key (ss_cipher st)" "cs_n (ss_cipher st) \<noteq> UINT64_MAX"
  shows "decrypt_and_hash S c st = Returns (Some p, ss) \<longleftrightarrow>
    c = crypto_aead_encrypt S p (ss_h st) (encode_nonce (cs_n (ss_cipher st))) (cs_k (ss_cipher st)) \<and>
    ss = mix_hash S c (st\<lparr>ss_cipher := (ss_cipher st)\<lparr>cs_n := cs_n (ss_cipher st) + 1\<rparr>\<rparr>)"
proof -
  let ?n = "encode_nonce (cs_n (ss_cipher st))" and ?k = "cs_k (ss_cipher st)"
  have len: "length ?n = 12" "length ?k = 32" using st(1) by (simp_all add: wf_sym_def wf_cipher_def len_simps)
  have "crypto_aead_decrypt S c (ss_h st) ?n ?k = Some p \<longleftrightarrow> c = crypto_aead_encrypt S p (ss_h st) ?n ?k"
    using aead_exactD [OF S(2) len, of c "ss_h st" p] aead_roundtrip [OF S(1) len, of p "ss_h st"] by auto
  moreover have "length (crypto_aead_encrypt S p (ss_h st) ?n ?k) = length p + 16"
    using aead_length [OF S(1) len] by simp
  ultimately show ?thesis
    using st(2,3)
    by (auto simp: decrypt_and_hash_def decrypt_with_ad_def Let_def split: option.splits)
qed

lemma xx_last_read_iff:
  assumes wf: "wf_hs r" and xx: "hs_pattern r = XX" "hs_step r = 2"
  shows "(\<exists>r'. read_message S m r = Returns (Some p, r') \<and> hs_rs r' = rs) \<longleftrightarrow>
    (\<exists>s1 z s2. 48 \<le> length m \<and> decrypt_and_hash S (take 48 m) (hs_symmetric r) = Returns (Some rs, s1) \<and>
       length rs = 32 \<and> dh S (hs_e_sk r) rs = Some z \<and>
       decrypt_and_hash S (drop 48 m) (mix_key S z s1) = Returns (Some p, s2))"
proof -
  have more: "\<not> is_complete r" and len: "length (hs_rs r) = 32"
    using wf xx by (simp_all add: is_complete_def wf_hs_def wf_keys_def)
  let ?d = "decrypt_and_hash S (take 48 m) (hs_symmetric r)"
  note read = read_message_def read_switch_def read_encrypted_static_def xx more Let_def
  consider "\<not> 48 \<le> length m" | e where "48 \<le> length m" "?d = Aborts e"
    | s1 where "48 \<le> length m" "?d = Returns (None, s1)"
    | q s1 where "48 \<le> length m" "?d = Returns (Some q, s1)" "length q \<noteq> 32"
    | q s1 where "48 \<le> length m" "?d = Returns (Some q, s1)" "length q = 32"
    by (cases ?d) (auto, metis option.exhaust)
  then show ?thesis
  proof cases
    case (5 q s1)
    let ?h = "r\<lparr>hs_symmetric := s1, hs_rs := q, hs_rs_known := True\<rparr>"
    have run: "read_message S m r = (case dh S (hs_e_sk r) q of None \<Rightarrow> Returns (None, ?h)
      | Some z \<Rightarrow> bind_outcome (decrypt_and_hash S (drop 48 m) (mix_key S z s1)) (\<lambda>(plain, ss).
          case plain of None \<Rightarrow> Returns (None, ?h\<lparr>hs_symmetric := ss\<rparr>)
          | Some x \<Rightarrow> Returns (Some x, ?h\<lparr>hs_symmetric := ss, hs_step := 3\<rparr>)))"
      using 5 len
      by (simp add: read mix_dh_def sym_of_def memcpy_def split: option.splits)
        (intro allI impI arg_cong2 [where f = bind_outcome] refl ext, auto simp: xx split: option.splits)
    show ?thesis
    proof (cases "dh S (hs_e_sk r) q")
      case None
      with run 5 show ?thesis by auto
    next
      case (Some z)
      with run 5 show ?thesis
        by (cases "decrypt_and_hash S (drop 48 m) (mix_key S z s1)") (auto split: option.splits)
    qed
  qed (auto simp: read)
qed

section \<open>Properties\<close>

text \<open>
  C8. Handshake messages are not malleable: in every well-formed state of either role and pattern,
  two messages that are accepted with the same payload and from which the reader learns the same
  public keys are the same message, byte for byte, and leave the same state.
\<close>

theorem handshake_messages_not_malleable:
  assumes "hash_ok S" and "aead_exact S" and "wf_hs r"
    and "read_message S m r = Returns (Some p, a)" and "read_message S m' r = Returns (Some p, a')"
    and "hs_re a = hs_re a'" and "hs_rs a = hs_rs a'"
  shows "m = m' \<and> a = a'"
  by (rule accepted_message_unique [OF assms])

theorem handshake_messages_not_malleable_witness:
  "let r = HandshakeState_new toy_sodium XX False (generate_keypair toy_sodium (replicate 32 3)) None;
       m = replicate 32 1 @ [7] in
   \<exists>a. read_message toy_sodium m r = Returns (Some [7], a) \<and>
     {m'. read_message toy_sodium m' r = Returns (Some [7], a)} = {m}"
proof -
  let ?r = "HandshakeState_new toy_sodium XX False (generate_keypair toy_sodium (replicate 32 3)) None"
  let ?m = "replicate 32 1 @ [7] :: bytes"
  have wf: "wf_hs ?r"
    by (rule wf_keys_new) (simp_all add: generate_keypair_def toy_sodium_def hash_ok_def toy_parts)
  have "hs_re ?r = zeros 32" by (simp add: HandshakeState_new_def Let_def)
  then have "\<exists>a. read_message toy_sodium ?m ?r = Returns (Some [7], a)"
    using fresh_cipher [of toy_sodium XX False "generate_keypair toy_sodium (replicate 32 3)" None]
    by (simp add: read_message_def read_switch_def fresh_fields is_complete_def read_e_def decrypt_and_hash_def
        CipherState_default_def Let_def) (simp add: HandshakeState_new_def Let_def)
  then obtain a where a: "read_message toy_sodium ?m ?r = Returns (Some [7], a)" by blast
  have "m' = ?m" if "read_message toy_sodium m' ?r = Returns (Some [7], a)" for m'
    using handshake_messages_not_malleable [OF toy_hash_ok toy_aead_exact wf that a refl refl] by simp
  with a show ?thesis unfolding Let_def by blast
qed

text \<open>
  C7. What the last XX message proves to the responder: at that step, with a keyed handshake cipher,
  whose counter is not exhausted, the responder accepts a message with payload \<open>p\<close> and takes the
  public key of \<open>sk\<close> for the peer's static key if and only if the message is that public key,
  sealed under the handshake key, followed by the payload sealed under a key derived from the
  chaining key and the Diffie-Hellman secret of \<open>sk\<close> itself and the responder's ephemeral public
  key, over the transcript with the sealed key. Every accepted message is therefore keyed with the
  static-ephemeral agreement \<open>se\<close> of the very key it claims. That nobody else can compute this secret
  is the assumption on X25519 and not part of the statement.
\<close>

theorem xx_last_message_accepted_iff:
  assumes S: "run_laws S" "aead_exact S"
    and r: "wf_hs r" "hs_pattern r = XX" "hs_step r = 2"
    and cipher: "cs_has_key (ss_cipher (hs_symmetric r))" "cs_n (ss_cipher (hs_symmetric r)) \<noteq> UINT64_MAX"
    and keys: "own_keypair S (hs_e_sk r) (hs_e_pk r)" "own_keypair S sk rs"
  shows "(\<exists>r'. read_message S m r = Returns (Some p, r') \<and> peer_static_public_key r' = rs) \<longleftrightarrow>
    (\<exists>z. crypto_scalarmult S sk (hs_e_pk r) = Some z \<and> m = xx_last_message S (hs_symmetric r) z rs p)"
proof -
  let ?st = "hs_symmetric r"
  note laws = run_lawsD [OF S(1)]
  have wf: "wf_sym ?st" using r(1) by (simp add: wf_hs_def wf_keys_def)
  have rs: "length rs = 32" using keys(2) laws(3) by (simp add: own_keypair_def len_simps)
  let ?c = "crypto_aead_encrypt S rs (ss_h ?st) (encode_nonce (cs_n (ss_cipher ?st))) (cs_k (ss_cipher ?st))"
  let ?s1 = "mix_hash S ?c (?st\<lparr>ss_cipher := (ss_cipher ?st)\<lparr>cs_n := cs_n (ss_cipher ?st) + 1\<rparr>\<rparr>)"
  have c: "length ?c = 48"
    using aead_length [OF laws(2)] wf rs by (simp add: wf_sym_def wf_cipher_def len_simps)
  have agree: "dh S (hs_e_sk r) rs = crypto_scalarmult S sk (hs_e_pk r)"
    using dh_agree [OF laws(3)] keys by (simp add: dh_def own_keypair_def)
  have inner: "(\<exists>s2. decrypt_and_hash S d (mix_key S z ?s1) = Returns (Some p, s2)) \<longleftrightarrow>
      d = crypto_aead_encrypt S p (blake2b S (ss_h ?st @ ?c)) (encode_nonce 0) (take 32 (pair_output2 (hkdf2 S (ss_ck ?st) z)))"
    for d z
  proof -
    have "wf_sym (mix_key S z ?s1)"
      using wf laws(1) by (intro wf_mix_key wf_mix_hash) (simp_all add: wf_sym_def wf_cipher_def)
    from opens_iff [OF laws(2) S(2) this, of d p] show ?thesis
      using laws(1) by (simp add: mix_key_def mix_hash_def initialize_key_def memcpy_def Let_def blake2b_pair_append len_simps)
  qed
  have "(\<exists>r'. read_message S m r = Returns (Some p, r') \<and> hs_rs r' = rs) \<longleftrightarrow>
      48 \<le> length m \<and> take 48 m = ?c \<and> (\<exists>z. crypto_scalarmult S sk (hs_e_pk r) = Some z \<and>
        (\<exists>s2. decrypt_and_hash S (drop 48 m) (mix_key S z ?s1) = Returns (Some p, s2)))"
    unfolding xx_last_read_iff [OF r] opens_iff [OF laws(2) S(2) wf cipher] agree using rs by (cases "take 48 m = ?c") simp_all
  also have "\<dots> \<longleftrightarrow> (\<exists>z. crypto_scalarmult S sk (hs_e_pk r) = Some z \<and> m = xx_last_message S ?st z rs p)"
  proof -
    have "48 \<le> length m \<and> take 48 m = ?c \<and> drop 48 m = d \<longleftrightarrow> m = ?c @ d" for d
      using c by (metis append_eq_conv_conj append_take_drop_id le_add1 length_append)
    then show ?thesis unfolding inner xx_last_message_def Let_def by blast
  qed
  finally show ?thesis .
qed

theorem xx_last_message_accepted_iff_witness:
  "\<exists>r m z rs r'. read_message toy_sodium m r = Returns (Some [9], r') \<and> peer_static_public_key r' = rs \<and>
     crypto_scalarmult toy_sodium (replicate 32 3) (hs_e_pk r) = Some z \<and>
     m = xx_last_message toy_sodium (hs_symmetric r) z rs [9]"
proof -
  let ?a = "generate_keypair toy_sodium (replicate 32 3)" and ?b = "generate_keypair toy_sodium (replicate 32 5)"
  have keys: "own_keypair toy_sodium (kp_sk ?a) (kp_pk ?a)" "own_keypair toy_sodium (kp_sk ?b) (kp_pk ?b)"
    by (simp_all add: own_keypair_generate)
  have len: "length (replicate 32 1 :: bytes) = 32" "length (replicate 32 2 :: bytes) = 32"
    "length (replicate 32 4 :: bytes) = 32" by simp_all
  from xx_before_last [OF toy_run_laws keys len(1,2), of "[]" "[]"] obtain i r K
    where turn: "turn_ok toy_sodium K [[TokS, TokSE]] i r" and pk: "hs_s_pk i = kp_pk ?a" by blast
  from turn_message [OF toy_run_laws len(3) turn, of "[9]"] pk obtain m r'
    where acc: "read_message toy_sodium m r = Returns (Some [9], r')" "hs_rs r' = kp_pk ?a" by auto
  note last = turn_last [OF turn]
  have cipher: "cs_has_key (ss_cipher (hs_symmetric r))" "cs_n (ss_cipher (hs_symmetric r)) \<noteq> UINT64_MAX"
    and eph: "own_keypair toy_sodium (hs_e_sk r) (hs_e_pk r)"
    using turn last(2) by (auto simp: turn_ok_def synced_def wire_budget_def nonces_left_def)
  have "own_keypair toy_sodium (replicate 32 3) (kp_pk ?a)" using keys(1) by (simp add: generate_keypair_def)
  from xx_last_message_accepted_iff [OF toy_run_laws toy_aead_exact last(1,3,2) cipher eph this, of m "[9]"] acc
  show ?thesis by blast
qed

end
