(* ===== verification/Handshake_Progress.thy ===== *)
theory Handshake_Progress
  imports Handshake_Auth
begin

text \<open>
  Resources of a handshake: how often it can succeed, how far its nonce counter can move, how
  long its messages can get, and what a rejected message leaves behind.
\<close>

section \<open>Costs of commands\<close>

text \<open>
  A command of cost \<open>d\<close> does not abort while the counter of the handshake cipher is at least \<open>d\<close>
  below its maximum, and moves it by at most \<open>d\<close>.
\<close>

abbreviation hs_counter :: "HandshakeState \<Rightarrow> nat" where
  "hs_counter hs \<equiv> unat (cs_n (ss_cipher (hs_symmetric hs)))"

definition costs :: "(HandshakeState \<times> 'x) command \<Rightarrow> nat \<Rightarrow> bool" where
  "costs c d \<longleftrightarrow> (\<forall>hs x. hs_counter hs + d \<le> unat UINT64_MAX \<longrightarrow>
     (\<exists>ok hs' x'. c (hs, x) = Returns (ok, hs', x') \<and> hs_counter hs' \<le> hs_counter hs + d))"

lemma costsD:
  "costs c d \<Longrightarrow> hs_counter hs + d \<le> unat UINT64_MAX \<Longrightarrow>
     \<exists>ok hs' x'. c (hs, x) = Returns (ok, hs', x') \<and> hs_counter hs' \<le> hs_counter hs + d"
  by (simp add: costs_def)

lemma encrypt_cost:
  assumes "unat (cs_n c) + 1 \<le> unat UINT64_MAX"
  shows "\<exists>w c'. encrypt_with_ad S ad p c = Returns (w, c') \<and> unat (cs_n c') \<le> unat (cs_n c) + 1"
proof -
  have n: "cs_n c \<noteq> UINT64_MAX" using assms by auto
  show ?thesis
    by (cases "cs_has_key c") (simp_all add: encrypt_keyed [OF _ n] unat_Suc_nonce [OF n])
qed

lemma decrypt_cost:
  assumes "unat (cs_n c) + 1 \<le> unat UINT64_MAX"
  shows "\<exists>p c'. decrypt_with_ad S ad w c = Returns (p, c') \<and> unat (cs_n c') \<le> unat (cs_n c) + 1"
proof -
  have n: "cs_n c \<noteq> UINT64_MAX" using assms by auto
  then have "decrypt_with_ad S ad w c \<noteq> Aborts e" for e by (simp add: decrypt_aborts_iff)
  then obtain p c' where d: "decrypt_with_ad S ad w c = Returns (p, c')" by (metis outcome.exhaust surj_pair)
  moreover have "unat (cs_n c') \<le> unat (cs_n c) + 1"
    using d by (auto simp: decrypt_with_ad_def Let_def unat_Suc_nonce [OF n] split: if_splits option.splits)
  ultimately show ?thesis by blast
qed

lemma encrypt_and_hash_cost:
  assumes "unat (cs_n (ss_cipher st)) + 1 \<le> unat UINT64_MAX"
  shows "\<exists>w st'. encrypt_and_hash S p st = Returns (w, st') \<and>
    unat (cs_n (ss_cipher st')) \<le> unat (cs_n (ss_cipher st)) + 1"
  using encrypt_cost [OF assms, of S "ss_h st" p] by (auto simp: encrypt_and_hash_def Let_def)

lemma decrypt_and_hash_cost:
  assumes "unat (cs_n (ss_cipher st)) + 1 \<le> unat UINT64_MAX"
  shows "\<exists>p st'. decrypt_and_hash S w st = Returns (p, st') \<and>
    unat (cs_n (ss_cipher st')) \<le> unat (cs_n (ss_cipher st)) + 1"
proof -
  from decrypt_cost [OF assms, of S "ss_h st" w] obtain p c
    where "decrypt_with_ad S (ss_h st) w (ss_cipher st) = Returns (p, c)" "unat (cs_n c) \<le> unat (cs_n (ss_cipher st)) + 1"
    by blast
  then show ?thesis by (cases p) (simp_all add: decrypt_and_hash_def Let_def)
qed

lemma mix_dh_costs: "costs (mix_dh S sk pk) 0"
  unfolding costs_def
proof (intro allI impI)
  fix hs :: HandshakeState and x :: 'a
  show "\<exists>ok hs' x'. mix_dh S sk pk (hs, x) = Returns (ok, hs', x') \<and> hs_counter hs' \<le> hs_counter hs + 0"
    by (cases "dh S (sk hs) (pk hs)") (auto simp: mix_dh_def)
qed

lemma write_e_costs: "costs (write_e S rnd) 0"
  by (auto simp: costs_def write_e_def Let_def)

lemma encrypt_field_costs: "costs (encrypt_field S plain) 1"
  unfolding costs_def
proof (intro allI impI)
  fix hs :: HandshakeState and out
  assume "hs_counter hs + 1 \<le> unat UINT64_MAX"
  from encrypt_and_hash_cost [OF this, of S "plain hs"]
  show "\<exists>ok hs' x'. encrypt_field S plain (hs, out) = Returns (ok, hs', x') \<and> hs_counter hs' \<le> hs_counter hs + 1"
    by (auto simp: encrypt_field_def)
qed

lemma read_e_costs: "costs (read_e S m) 0"
  by (auto simp: costs_def read_e_def Let_def)

lemma read_encrypted_static_costs: "costs (read_encrypted_static S m) 1"
  unfolding costs_def
proof (intro allI impI)
  fix hs :: HandshakeState and off
  assume "hs_counter hs + 1 \<le> unat UINT64_MAX"
  from decrypt_and_hash_cost [OF this, of S "take 48 (drop off m)"] obtain p ss
    where "decrypt_and_hash S (take 48 (drop off m)) (hs_symmetric hs) = Returns (p, ss)"
      "unat (cs_n (ss_cipher ss)) \<le> hs_counter hs + 1" by blast
  then show "\<exists>ok hs' x'. read_encrypted_static S m (hs, off) = Returns (ok, hs', x') \<and> hs_counter hs' \<le> hs_counter hs + 1"
    by (cases p) (auto simp: read_encrypted_static_def Let_def)
qed

lemma run_seq_costs:
  assumes "list_all2 costs cs ds"
  shows "costs (run_seq cs) (sum_list ds)"
  using assms
proof (induction rule: list_all2_induct)
  case Nil
  then show ?case by (auto simp: costs_def)
next
  case (Cons c cs d ds)
  show ?case
    unfolding costs_def
  proof (intro allI impI)
    fix hs x
    assume room: "hs_counter hs + sum_list (d # ds) \<le> unat UINT64_MAX"
    then have room1: "hs_counter hs + d \<le> unat UINT64_MAX" by simp
    from costsD [OF Cons(1) room1, of x] obtain ok h1 x1
      where c: "c (hs, x) = Returns (ok, h1, x1)" "hs_counter h1 \<le> hs_counter hs + d" by blast
    have room2: "hs_counter h1 + sum_list ds \<le> unat UINT64_MAX" using c(2) room by simp
    from costsD [OF Cons(3) room2, of x1] obtain ok2 h2 x2
      where r: "run_seq cs (h1, x1) = Returns (ok2, h2, x2)" "hs_counter h2 \<le> hs_counter h1 + sum_list ds" by blast
    show "\<exists>ok hs' x'. run_seq (c # cs) (hs, x) = Returns (ok, hs', x') \<and> hs_counter hs' \<le> hs_counter hs + sum_list (d # ds)"
      using c r by (cases ok) auto
  qed
qed

lemmas command_costs =
  mix_dh_costs write_e_costs read_e_costs read_encrypted_static_costs
  encrypt_field_costs [where plain = hs_s_pk, folded encrypt_static_def]
  encrypt_field_costs [where plain = "\<lambda>_. payload" for payload, folded encrypt_payload_def]

text \<open>A message costs at most two: the static key and the payload.\<close>

lemma write_switch_costs:
  assumes "write_switch S rnd payload hs = Some cmds"
  shows "\<exists>d \<le> 2. costs (run_seq cmds) d"
proof -
  have "\<exists>ds. list_all2 costs cmds ds \<and> sum_list ds \<le> 2"
  proof -
    consider "cmds = [write_e S rnd, mix_dh S hs_e_sk hs_rs, encrypt_static S, mix_dh S hs_s_sk hs_rs, encrypt_payload S payload]"
      | "cmds = [write_e S rnd, encrypt_payload S payload]"
      | "cmds = [write_e S rnd, mix_dh S hs_e_sk hs_re, mix_dh S hs_s_sk hs_re, encrypt_payload S payload]"
      | "cmds = [write_e S rnd, mix_dh S hs_e_sk hs_re, encrypt_static S, mix_dh S hs_s_sk hs_re, encrypt_payload S payload]"
      | "cmds = [encrypt_static S, mix_dh S hs_s_sk hs_re, encrypt_payload S payload]"
      using assms by (auto simp: write_switch_def split: if_splits)
    then show ?thesis
    proof cases
      case 1
      then show ?thesis by (intro exI [of _ "[0, 0, 1, 0, 1]"]) (simp add: command_costs del: One_nat_def)
    next
      case 2
      then show ?thesis by (intro exI [of _ "[0, 1]"]) (simp add: command_costs del: One_nat_def)
    next
      case 3
      then show ?thesis by (intro exI [of _ "[0, 0, 0, 1]"]) (simp add: command_costs del: One_nat_def)
    next
      case 4
      then show ?thesis by (intro exI [of _ "[0, 0, 1, 0, 1]"]) (simp add: command_costs del: One_nat_def)
    next
      case 5
      then show ?thesis by (intro exI [of _ "[1, 0, 1]"]) (simp add: command_costs del: One_nat_def)
    qed
  qed
  then show ?thesis using run_seq_costs by blast
qed

lemma read_switch_costs:
  assumes "read_switch S m hs = Some cmds"
  shows "\<exists>d \<le> 1. costs (run_seq cmds) d"
proof -
  have "\<exists>ds. list_all2 costs cmds ds \<and> sum_list ds \<le> 1"
  proof -
    consider "cmds = [read_e S m, mix_dh S hs_s_sk hs_re, read_encrypted_static S m, mix_dh S hs_s_sk hs_rs]"
      | "cmds = [read_e S m]"
      | "cmds = [read_e S m, mix_dh S hs_e_sk hs_re, mix_dh S hs_e_sk hs_rs]"
      | "cmds = [read_e S m, mix_dh S hs_e_sk hs_re, read_encrypted_static S m, mix_dh S hs_e_sk hs_rs]"
      | "cmds = [read_encrypted_static S m, mix_dh S hs_e_sk hs_rs]"
      using assms by (auto simp: read_switch_def split: if_splits)
    then show ?thesis
    proof cases
      case 1
      then show ?thesis by (intro exI [of _ "[0, 0, 1, 0]"]) (simp add: command_costs del: One_nat_def)
    next
      case 2
      then show ?thesis by (intro exI [of _ "[0]"]) (simp add: command_costs del: One_nat_def)
    next
      case 3
      then show ?thesis by (intro exI [of _ "[0, 0, 0]"]) (simp add: command_costs del: One_nat_def)
    next
      case 4
      then show ?thesis by (intro exI [of _ "[0, 0, 1, 0]"]) (simp add: command_costs del: One_nat_def)
    next
      case 5
      then show ?thesis by (intro exI [of _ "[1, 0]"]) (simp add: command_costs del: One_nat_def)
    qed
  qed
  then show ?thesis using run_seq_costs by blast
qed

lemma write_message_cost:
  assumes "hs_counter hs + 2 \<le> unat UINT64_MAX"
  shows "\<exists>r hs'. write_message S rnd payload hs = Returns (r, hs') \<and> hs_counter hs' \<le> hs_counter hs + 2"
proof (cases "write_switch S rnd payload hs")
  case None
  then show ?thesis by (simp add: write_message_def)
next
  case (Some cmds)
  from write_switch_costs [OF Some] obtain d where d: "d \<le> 2" "costs (run_seq cmds) d" by blast
  with assms costsD [OF d(2), of hs "[]"] obtain ok h out
    where run: "run_seq cmds (hs, []) = Returns (ok, h, out)" "hs_counter h \<le> hs_counter hs + d" by auto
  with Some d(1) show ?thesis by (auto simp: write_message_def)
qed

lemma read_message_cost:
  assumes "hs_counter hs + 2 \<le> unat UINT64_MAX"
  shows "\<exists>r hs'. read_message S m hs = Returns (r, hs') \<and> hs_counter hs' \<le> hs_counter hs + 2"
proof (cases "read_switch S m hs")
  case None
  then show ?thesis by (simp add: read_message_def)
next
  case (Some cmds)
  from read_switch_costs [OF Some] obtain d where d: "d \<le> 1" "costs (run_seq cmds) d" by blast
  with assms costsD [OF d(2), of hs 0] obtain ok h off
    where run: "run_seq cmds (hs, 0) = Returns (ok, h, off)" "hs_counter h \<le> hs_counter hs + d" by auto
  then have room: "hs_counter h + 1 \<le> unat UINT64_MAX" using assms d(1) by simp
  from decrypt_and_hash_cost [OF room, of S "drop off m"] obtain p ss
    where "decrypt_and_hash S (drop off m) (hs_symmetric h) = Returns (p, ss)"
      "unat (cs_n (ss_cipher ss)) \<le> hs_counter h + 1" by blast
  with Some d(1) run show ?thesis by (cases ok; cases p) (auto simp: read_message_def Let_def)
qed

lemma calls_cost:
  assumes "(hs_call S ^^ k) hs hs'" "hs_counter hs + 2 * k \<le> unat UINT64_MAX"
  shows "hs_counter hs' \<le> hs_counter hs + 2 * k"
  using assms
proof (induction k arbitrary: hs')
  case 0
  then show ?case by simp
next
  case (Suc k)
  from Suc.prems(1) obtain h where h: "(hs_call S ^^ k) hs h" "hs_call S h hs'" by auto
  have le: "hs_counter h \<le> hs_counter hs + 2 * k" using Suc.IH [OF h(1)] Suc.prems(2) by simp
  then have room: "hs_counter h + 2 \<le> unat UINT64_MAX" using Suc.prems(2) by simp
  from h(2) have "hs_counter hs' \<le> hs_counter h + 2"
  proof (cases rule: hs_call.cases)
    case (hs_write rnd payload r)
    with write_message_cost [OF room, of S rnd payload] show ?thesis by auto
  next
    case (hs_read m r)
    with read_message_cost [OF room, of S m] show ?thesis by auto
  qed
  with le show ?case by simp
qed

section \<open>Sizes of messages\<close>

text \<open>
  A writing command keeps the buffer sizes; it appends at most \<open>d\<close> bytes, and at least \<open>c\<close> when it
  succeeds.
\<close>

definition grows :: "nat \<times> nat \<Rightarrow> (HandshakeState \<times> bytes) command \<Rightarrow> bool" where
  "grows b cmd \<longleftrightarrow> (\<forall>hs out ok hs' out'. wf_keys hs \<longrightarrow> cmd (hs, out) = Returns (ok, hs', out') \<longrightarrow>
     wf_keys hs' \<and> (ok \<longrightarrow> length out + fst b \<le> length out') \<and> length out' \<le> length out + snd b)"

lemma growsD:
  "grows b cmd \<Longrightarrow> wf_keys hs \<Longrightarrow> cmd (hs, out) = Returns (ok, hs', out') \<Longrightarrow>
     wf_keys hs' \<and> (ok \<longrightarrow> length out + fst b \<le> length out') \<and> length out' \<le> length out + snd b"
  unfolding grows_def by blast

lemma mix_dh_grows: "hash_ok S \<Longrightarrow> grows (0, 0) (mix_dh S sk pk)"
  unfolding grows_def by (auto dest: mix_dh_frame mix_dh_keeps)

lemma write_e_grows: "hash_ok S \<Longrightarrow> dh_ok S \<Longrightarrow> length rnd = 32 \<Longrightarrow> grows (32, 32) (write_e S rnd)"
  unfolding grows_def using write_e_keeps [of S rnd]
  by (auto simp: write_e_def generate_keypair_def Let_def len_simps)

lemma encrypt_field_grows:
  assumes "hash_ok S" "aead_ok S" "\<And>hs. wf_keys hs \<Longrightarrow> length (plain hs) = n"
  shows "grows (n, n + 16) (encrypt_field S plain)"
  unfolding grows_def
proof (intro allI impI)
  fix hs out ok hs' out'
  assume wf: "wf_keys hs" and c: "encrypt_field S plain (hs, out) = Returns (ok, hs', out')"
  then obtain w ss where w: "encrypt_and_hash S (plain hs) (hs_symmetric hs) = Returns (w, ss)" "out' = out @ w"
    by (auto simp: encrypt_field_def)
  have "length (plain hs) \<le> length w \<and> length w \<le> length (plain hs) + 16"
    using length_encrypt_and_hash [OF assms(2) _ w(1)] wf by (simp add: wf_keys_def)
  with encrypt_field_keeps [OF assms(1) wf c] w(2) assms(3) [OF wf]
  show "wf_keys hs' \<and> (ok \<longrightarrow> length out + fst (n, n + 16) \<le> length out') \<and>
      length out' \<le> length out + snd (n, n + 16)" by simp
qed

lemma run_seq_grows:
  assumes "list_all2 grows bs cmds"
  shows "grows (sum_list (map fst bs), sum_list (map snd bs)) (run_seq cmds)"
  using assms
proof (induction rule: list_all2_induct)
  case Nil
  then show ?case by (simp add: grows_def)
next
  case (Cons b bs c cs)
  show ?case
    unfolding grows_def
  proof (intro allI impI)
    fix hs out ok hs' out'
    assume wf: "wf_keys hs" and run: "run_seq (c # cs) (hs, out) = Returns (ok, hs', out')"
    from run obtain ok1 h1 o1 where c: "c (hs, out) = Returns (ok1, h1, o1)"
      and rest: "(if ok1 then run_seq cs (h1, o1) else Returns (False, h1, o1)) = Returns (ok, hs', out')" by auto
    note step = growsD [OF Cons(1) wf c]
    show "wf_keys hs' \<and> (ok \<longrightarrow> length out + fst (sum_list (map fst (b # bs)), sum_list (map snd (b # bs))) \<le> length out') \<and>
        length out' \<le> length out + snd (sum_list (map fst (b # bs)), sum_list (map snd (b # bs)))"
    proof (cases ok1)
      case True
      with growsD [OF Cons(3), of h1 o1 ok hs' out'] step rest show ?thesis by auto
    next
      case False
      with step rest show ?thesis by simp
    qed
  qed
qed

lemma write_message_size:
  assumes S: "run_laws S" and rnd: "length rnd = 32" and wf: "wf_hs hs"
    and w: "write_message S rnd payload hs = Returns (Some m, hs')"
  shows "32 + length payload \<le> length m \<and> length m \<le> 96 + length payload"
  using w
proof (cases rule: write_message_cases)
  case (written cmds out hs1)
  note laws = run_lawsD [OF S]
  let ?p = "(length payload, length payload + 16)"
  have e: "grows (32, 32) (write_e S rnd)" by (rule write_e_grows [OF laws(1,3) rnd])
  have s: "grows (32, 48) (encrypt_static S)"
    using encrypt_field_grows [OF laws(1,2), of hs_s_pk 32] by (simp add: encrypt_static_def wf_keys_def)
  have p: "grows ?p (encrypt_payload S payload)"
    using encrypt_field_grows [OF laws(1,2), of "\<lambda>_. payload" "length payload"] by (simp add: encrypt_payload_def)
  have d: "grows (0, 0) (mix_dh S sk pk)" for sk pk by (rule mix_dh_grows [OF laws(1)])
  consider "\<exists>x y. cmds = [write_e S rnd, mix_dh S hs_e_sk x, encrypt_static S, mix_dh S hs_s_sk y, encrypt_payload S payload]"
    | "cmds = [write_e S rnd, encrypt_payload S payload]"
    | "cmds = [write_e S rnd, mix_dh S hs_e_sk hs_re, mix_dh S hs_s_sk hs_re, encrypt_payload S payload]"
    | "cmds = [encrypt_static S, mix_dh S hs_s_sk hs_re, encrypt_payload S payload]"
    using written(1) by (auto simp: write_switch_def split: if_splits)
  then have "\<exists>bs. list_all2 grows bs cmds \<and> 32 + length payload \<le> sum_list (map fst bs) \<and>
      sum_list (map snd bs) \<le> 96 + length payload"
  proof cases
    case 1
    then show ?thesis by (intro exI [of _ "[(32, 32), (0, 0), (32, 48), (0, 0), ?p]"]) (auto simp: e s p d)
  next
    case 2
    then show ?thesis by (intro exI [of _ "[(32, 32), ?p]"]) (simp add: e p)
  next
    case 3
    then show ?thesis by (intro exI [of _ "[(32, 32), (0, 0), (0, 0), ?p]"]) (simp add: e p d)
  next
    case 4
    then show ?thesis by (intro exI [of _ "[(32, 48), (0, 0), ?p]"]) (simp add: s p d)
  qed
  then obtain bs where bs: "list_all2 grows bs cmds" "32 + length payload \<le> sum_list (map fst bs)"
      "sum_list (map snd bs) \<le> 96 + length payload" by blast
  have "wf_keys hs" using wf by (simp add: wf_hs_def)
  from growsD [OF run_seq_grows [OF bs(1)] this written(3)] bs(2,3) written(4) show ?thesis by simp
qed auto

section \<open>Progress\<close>

text \<open>A call that succeeds: a message was written or accepted.\<close>

inductive hs_progress :: "'h sodium \<Rightarrow> HandshakeState \<Rightarrow> HandshakeState \<Rightarrow> bool" for S where
  progress_write: "length rnd = 32 \<Longrightarrow> write_message S rnd payload hs = Returns (Some m, hs') \<Longrightarrow> hs_progress S hs hs'"
| progress_read: "read_message S m hs = Returns (Some p, hs') \<Longrightarrow> hs_progress S hs hs'"

lemma progress_step:
  assumes "hash_ok S" "dh_ok S" "wf_hs hs" "hs_progress S hs hs'"
  shows "wf_hs hs'" "hs_step hs' = hs_step hs + 1" "hs_steps_total hs' = hs_steps_total hs" "\<not> is_complete hs"
proof -
  have "wf_hs hs' \<and> hs_step hs' = hs_step hs + 1 \<and> same_identity hs hs' \<and> \<not> is_complete hs"
    using assms(4)
  proof (cases rule: hs_progress.cases)
    case (progress_write rnd payload m)
    with wf_write_message [OF assms(1,2) _ assms(3)] write_message_identity [OF assms(1,2) _ assms(3)]
    show ?thesis by (auto simp: write_complete split: if_splits)
  next
    case (progress_read m p)
    with wf_read_message [OF assms(1,3)] read_message_identity [OF assms(1,3)]
    show ?thesis by (auto simp: read_complete split: if_splits)
  qed
  then show "wf_hs hs'" "hs_step hs' = hs_step hs + 1" "hs_steps_total hs' = hs_steps_total hs" "\<not> is_complete hs"
    using assms(3) by (auto simp: wf_hs_def same_identity_def)
qed

lemma progress_steps:
  assumes S: "hash_ok S" "dh_ok S" and wf: "wf_hs hs" and run: "(hs_progress S ^^ n) hs hs'"
  shows "wf_hs hs' \<and> hs_step hs' = hs_step hs + int n \<and> hs_steps_total hs' = hs_steps_total hs"
  using run
proof (induction n arbitrary: hs')
  case 0
  with wf show ?case by simp
next
  case (Suc n)
  then obtain h where h: "(hs_progress S ^^ n) hs h" "hs_progress S h hs'" by auto
  from Suc.IH [OF h(1)] progress_step [OF S _ h(2)] show ?case by simp
qed

definition messages_left :: "HandshakeState \<Rightarrow> nat" where
  "messages_left hs = nat (hs_steps_total hs - hs_step hs)"

section \<open>Properties\<close>

text \<open>
  C12. A handshake ends: relative to the number of messages left, every successful call of
  \<open>write_message\<close> or \<open>read_message\<close> descends, so there is no infinite sequence of successful calls; at
  most as many calls succeed as messages are left, the handshake is complete exactly when all of
  them have, and then no call succeeds any more.
\<close>

theorem handshake_terminates:
  assumes S: "hash_ok S" "dh_ok S"
  shows "wfP (\<lambda>hs' hs. wf_hs hs \<and> hs_progress S hs hs') \<and>
    (wf_hs hs \<and> (hs_progress S ^^ n) hs hs' \<longrightarrow>
       n \<le> messages_left hs \<and> (is_complete hs' \<longleftrightarrow> n = messages_left hs) \<and>
       (is_complete hs' \<longrightarrow> \<not> hs_progress S hs' hs''))"
proof
  have "messages_left b < messages_left a" if "wf_hs a" "hs_progress S a b" for a b
    using progress_step [OF S that] by (simp add: messages_left_def is_complete_def)
  then show "wfP (\<lambda>hs' hs. wf_hs hs \<and> hs_progress S hs hs')"
    by (intro wfp_if_convertible_to_nat [where f = messages_left]) blast
  show "wf_hs hs \<and> (hs_progress S ^^ n) hs hs' \<longrightarrow>
       n \<le> messages_left hs \<and> (is_complete hs' \<longleftrightarrow> n = messages_left hs) \<and>
       (is_complete hs' \<longrightarrow> \<not> hs_progress S hs' hs'')"
  proof
    assume "wf_hs hs \<and> (hs_progress S ^^ n) hs hs'"
    then have run: "wf_hs hs' \<and> hs_step hs' = hs_step hs + int n \<and> hs_steps_total hs' = hs_steps_total hs"
      using progress_steps [OF S] by blast
    then have le: "hs_step hs + int n \<le> hs_steps_total hs" by (simp add: wf_hs_def)
    then have "n \<le> messages_left hs" "is_complete hs' \<longleftrightarrow> n = messages_left hs"
      using run by (auto simp: messages_left_def is_complete_def split: if_splits)
    moreover have "\<not> hs_progress S hs' hs''" if "is_complete hs'"
      using progress_step(4) [OF S, of hs' hs''] run that by blast
    ultimately show "n \<le> messages_left hs \<and> (is_complete hs' \<longleftrightarrow> n = messages_left hs) \<and>
       (is_complete hs' \<longrightarrow> \<not> hs_progress S hs' hs'')" by blast
  qed
qed

theorem handshake_terminates_witness:
  "wfP (\<lambda>hs' hs. wf_hs hs \<and> hs_progress toy_sodium hs hs') \<and>
   (\<exists>hs hs'. wf_hs hs \<and> (hs_progress toy_sodium ^^ 1) hs hs' \<and> 1 \<le> messages_left hs \<and>
      is_complete hs' \<and> \<not> hs_progress toy_sodium hs' hs')"
proof -
  let ?a = "generate_keypair toy_sodium (replicate 32 3)" and ?b = "generate_keypair toy_sodium (replicate 32 5)"
  have keys: "own_keypair toy_sodium (kp_sk ?a) (kp_pk ?a)" "own_keypair toy_sodium (kp_sk ?b) (kp_pk ?b)"
    by (simp_all add: own_keypair_generate)
  have len: "length (replicate 32 1 :: bytes) = 32" by simp
  from xx_before_last [OF toy_run_laws keys len len, of "[]" "[]"] obtain i r K
    where turn: "turn_ok toy_sodium K [[TokS, TokSE]] i r" by blast
  from turn_message [OF toy_run_laws len turn, of "[]"] obtain m r'
    where "read_message toy_sodium m r = Returns (Some [], r')" by blast
  then have run: "(hs_progress toy_sodium ^^ 1) r r'" by (auto intro: progress_read)
  have wf: "wf_hs r" and left: "messages_left r = 1"
    using turn_last [OF turn] by (simp_all add: messages_left_def wf_hs_def)
  note ends = handshake_terminates [OF toy_hash_ok toy_dh_ok, of r 1 r' r']
  have "wfP (\<lambda>hs' hs. wf_hs hs \<and> hs_progress toy_sodium hs hs')" using ends by blast
  moreover have "is_complete r'" "\<not> hs_progress toy_sodium r' r'" using ends wf run left by auto
  moreover have "1 \<le> messages_left r" using left by simp
  ultimately show ?thesis using wf run by blast
qed

text \<open>
  C33. The nonce guards are out of reach of a handshake: after \<open>k\<close> calls on a new handshake, with any
  arguments and including failures, the counter of the handshake cipher is at most \<open>2 k\<close>, and the
  next call returns rather than aborting the process as long as \<open>2 k + 2 < 2^64\<close>.
\<close>

theorem handshake_never_exhausts_nonces:
  assumes "(hs_call S ^^ k) (HandshakeState_new S pattern initiator kp pre) hs" and "2 * k + 2 < 2 ^ 64"
  shows "unat (cs_n (ss_cipher (hs_symmetric hs))) \<le> 2 * k \<and>
    (\<exists>r. write_message S rnd payload hs = Returns r) \<and> (\<exists>r. read_message S message hs = Returns r)"
proof -
  have "hs_counter (HandshakeState_new S pattern initiator kp pre) = 0"
    by (simp add: fresh_cipher CipherState_default_def)
  with calls_cost [OF assms(1)] assms(2) have le: "hs_counter hs \<le> 2 * k" by simp
  then have "hs_counter hs + 2 \<le> unat UINT64_MAX" using assms(2) by simp
  from write_message_cost [OF this, of S rnd payload] read_message_cost [OF this, of S message] le
  show ?thesis by blast
qed

theorem handshake_never_exhausts_nonces_witness:
  "let hs = HandshakeState_new toy_sodium XX True (generate_keypair toy_sodium (replicate 32 3)) None in
   \<exists>hs1 hs2. (hs_call toy_sodium ^^ 2) hs hs2 \<and> hs_call toy_sodium hs hs1 \<and>
     unat (cs_n (ss_cipher (hs_symmetric hs2))) \<le> 4 \<and> (\<exists>r. read_message toy_sodium [1] hs2 = Returns r)"
proof -
  let ?hs = "HandshakeState_new toy_sodium XX True (generate_keypair toy_sodium (replicate 32 3)) None"
  have len: "length (replicate 32 1 :: bytes) = 32" by simp
  have "(hs_call toy_sodium ^^ 0) ?hs ?hs" "2 * 0 + 2 < (2 :: nat) ^ 64" by simp_all
  from handshake_never_exhausts_nonces [OF this, of "replicate 32 1" "[]" "[]"] obtain m hs1
    where "write_message toy_sodium (replicate 32 1) [] ?hs = Returns (m, hs1)" by fastforce
  with len have c1: "hs_call toy_sodium ?hs hs1" by (rule hs_write)
  then have "(hs_call toy_sodium ^^ 1) ?hs hs1" "2 * 1 + 2 < (2 :: nat) ^ 64" by auto
  from handshake_never_exhausts_nonces [OF this, of "[]" "[]" "replicate 40 7"] obtain p hs2
    where "read_message toy_sodium (replicate 40 7) hs1 = Returns (p, hs2)" by fastforce
  then have "hs_call toy_sodium hs1 hs2" by (rule hs_read)
  with c1 have run: "(hs_call toy_sodium ^^ 2) ?hs hs2" by (auto simp: numeral_2_eq_2)
  have "2 * 2 + 2 < (2 :: nat) ^ 64" by simp
  from handshake_never_exhausts_nonces [OF run this, of "[]" "[]" "[1]"] run c1 show ?thesis
    unfolding Let_def by auto
qed

lemma accepts_unknown_peer:
  assumes xx: "hs_pattern r = XX" "hs_step r = 2" "\<not> is_complete r"
    and accept: "read_message S m r = Returns (Some p, a)"
  shows "\<exists>a'. read_message S m (r\<lparr>hs_rs_known := False\<rparr>) = Returns (Some p, a')"
proof -
  have known: "read_encrypted_static S y (r\<lparr>hs_rs_known := False\<rparr>, n) = Returns (True, h, k)"
    if "read_encrypted_static S y (r, n) = Returns (True, h, k)" for y n h k
    using that by (auto simp: read_encrypted_static_def Let_def split: if_splits option.splits)
  from accept xx obtain h k where s: "read_encrypted_static S m (r, 0) = Returns (True, h, k)"
    by (auto simp: read_message_def read_switch_def split: if_splits)
  with xx known [OF s] have "read_message S m (r\<lparr>hs_rs_known := False\<rparr>) = read_message S m r"
    by (simp add: read_message_def read_switch_def is_complete_def)
  with accept show ?thesis by simp
qed

text \<open>
  C34. A rejected message may still mark the peer as known: for every last XX message that the
  responder accepts, its first 48 bytes alone, which carry no authenticated payload, are rejected
  and leave the step unchanged, but they set \<open>rs_known\<close> and the peer's static key as the whole message does.
\<close>

theorem rejected_message_marks_peer_known:
  assumes wf: "wf_hs r" and xx: "hs_pattern r = XX" "hs_step r = 2"
    and accept: "read_message S m r = Returns (Some p, a)"
  shows "\<exists>r'. read_message S (take 48 m) r = Returns (None, r') \<and>
    peer_static_known r' \<and> peer_static_public_key r' = peer_static_public_key a \<and> hs_step_count r' = 2"
proof -
  have more: "\<not> is_complete r" using wf xx by (simp add: is_complete_def wf_hs_def)
  have switch: "read_switch S y r = Some [read_encrypted_static S y, mix_dh S hs_e_sk hs_rs]" for y
    using xx by (simp add: read_switch_def)
  from accept switch more obtain h z ss
    where s: "read_encrypted_static S m (r, 0) = Returns (True, h, 48)" and z: "dh S (hs_e_sk h) (hs_rs h) = Some z"
      and a: "hs_rs a = hs_rs h"
    by (auto simp: read_message_def mix_dh_def read_encrypted_static_def Let_def split: if_splits option.splits)
  have s': "read_encrypted_static S (take 48 m) (r, 0) = Returns (True, h, 48)"
    using s by (auto simp: read_encrypted_static_def Let_def split: if_splits option.splits)
  have h: "hs_rs_known h" "hs_step h = 2"
    using s xx(2) by (auto simp: read_encrypted_static_def Let_def split: if_splits option.splits)
  have "decrypt_and_hash S [] (mix_key S z (hs_symmetric h)) = Returns (None, mix_key S z (hs_symmetric h))"
    by (simp add: decrypt_and_hash_def decrypt_with_ad_def)
  with s' z h a more switch show ?thesis by (simp add: read_message_def mix_dh_def Let_def)
qed

theorem rejected_message_marks_peer_known_witness:
  "\<exists>r m a r'. wf_hs r \<and> \<not> hs_rs_known r \<and> read_message toy_sodium m r = Returns (Some [], a) \<and>
     read_message toy_sodium (take 48 m) r = Returns (None, r') \<and> hs_rs_known r' \<and> hs_step r' = 2"
proof -
  let ?a = "generate_keypair toy_sodium (replicate 32 3)" and ?b = "generate_keypair toy_sodium (replicate 32 5)"
  have keys: "own_keypair toy_sodium (kp_sk ?a) (kp_pk ?a)" "own_keypair toy_sodium (kp_sk ?b) (kp_pk ?b)"
    by (simp_all add: own_keypair_generate)
  have len: "length (replicate 32 1 :: bytes) = 32" by simp
  from xx_before_last [OF toy_run_laws keys len len, of "[]" "[]"] obtain i r K
    where turn: "turn_ok toy_sodium K [[TokS, TokSE]] i r" by blast
  note last = turn_last [OF turn]
  from turn_message [OF toy_run_laws len turn, of "[]"] obtain m a
    where acc: "read_message toy_sodium m r = Returns (Some [], a)" by blast
  let ?r = "r\<lparr>hs_rs_known := False\<rparr>"
  have "\<not> is_complete r" using last by (simp add: is_complete_def wf_hs_def)
  from accepts_unknown_peer [OF last(3,2) this acc] obtain a'
    where acc': "read_message toy_sodium m ?r = Returns (Some [], a')" by blast
  have wf: "wf_hs ?r" using last(1) by (simp add: wf_hs_def wf_keys_def)
  have "hs_pattern ?r = XX" "hs_step ?r = 2" "\<not> hs_rs_known ?r" using last(2,3) by simp_all
  with rejected_message_marks_peer_known [OF wf _ _ acc'] wf acc' show ?thesis by blast
qed

end
