(* ===== verification/Session_Phases.thy ===== *)
theory Session_Phases
  imports Session Handshake_Progress
begin

text \<open>
  The contract a host relies on, as an automaton over the calls and their result codes: a session
  counts the messages its handshake still needs, is then complete, and is exported at most once.
  Every sequence of calls on an opened session is a run of that automaton. The theory also says
  what \<open>noise_handshake_step\<close> leaves in the out-buffer on each of its return paths.
\<close>

section \<open>One step of the handshake\<close>

text \<open>The effect of the writing half of \<open>noise_handshake_step\<close>, entered with an empty out-buffer.\<close>

datatype turn_effect = Waiting | Failed | Lost | Emitted bytes

definition turn_result :: "turn_effect \<Rightarrow> gn_result \<times> gn_secure_buffer" where
  "turn_result e =
     (case e of
        Waiting \<Rightarrow> (GN_OK, empty_buffer)
      | Failed \<Rightarrow> (GN_ERR_INVALID_ENVELOPE, empty_buffer)
      | Lost \<Rightarrow> (GN_ERR_OUT_OF_MEMORY, empty_buffer)
      | Emitted m \<Rightarrow> (GN_OK, filled_buffer m))"

definition turn_changes :: "'h sodium \<Rightarrow> turn_effect \<Rightarrow> HandshakeState \<Rightarrow> HandshakeState \<Rightarrow> bool" where
  "turn_changes S e a b \<longleftrightarrow>
     (case e of
        Waiting \<Rightarrow> b = a
      | Failed \<Rightarrow> messages_left b = messages_left a
      | Lost \<Rightarrow> hs_progress S a b
      | Emitted m \<Rightarrow> hs_progress S a b \<and> 32 \<le> length m \<and> length m \<le> 96)"

lemma turn_effects:
  assumes S: "run_laws S" and rnd: "length rnd = 32" and wf: "wf_hs (ns_handshake t)"
    and turn: "handshake_write_turn S rnd ok t empty_buffer = Returns (rc, t', out)"
  shows "\<exists>e hs. t' = t\<lparr>ns_handshake := hs\<rparr> \<and> wf_hs hs \<and> turn_changes S e (ns_handshake t) hs \<and>
    turn_result e = (rc, out) \<and> (e = Lost \<longrightarrow> \<not> ok)"
proof (cases "on_turn t")
  case False
  with turn wf show ?thesis
    by (intro exI [of _ Waiting]) (auto simp: handshake_write_turn_eq turn_result_def turn_changes_def)
next
  case True
  with turn obtain r hs where w: "write_message S rnd [] (ns_handshake t) = Returns (r, hs)"
    by (auto simp: handshake_write_turn_eq)
  note turn' = turn [unfolded handshake_write_turn_eq, unfolded w]
  from wf_write_message [OF run_lawsD(1,3) [OF S] rnd wf w] write_message_identity [OF run_lawsD(1,3) [OF S] rnd wf w]
  have hs: "wf_hs hs" "hs_step hs = hs_step (ns_handshake t) + (if r = None then 0 else 1)"
    "same_identity (ns_handshake t) hs" by simp_all
  show ?thesis
  proof (cases r)
    case None
    with hs wf have "messages_left hs = messages_left (ns_handshake t)"
      by (simp add: messages_left_def wf_hs_def same_identity_def)
    with None hs(1) turn' True show ?thesis
      by (intro exI [of _ Failed] exI [of _ hs]) (auto simp: turn_result_def turn_changes_def)
  next
    case (Some m)
    have "hs_progress S (ns_handshake t) hs" using rnd w Some by (blast intro: progress_write)
    moreover have "32 \<le> length m \<and> length m \<le> 96" using write_message_size [OF S rnd wf] w Some by fastforce
    ultimately show ?thesis
      using Some hs(1) turn' True
      by (intro exI [of _ "if ok then Emitted m else Lost"] exI [of _ hs]) (auto simp: turn_result_def turn_changes_def split: if_splits)
  qed
qed

text \<open>The four ways \<open>noise_handshake_step\<close> returns on a live session.\<close>

lemma step_effects:
  assumes S: "run_laws S" and rnd: "length rnd = 32" and wf: "wf_hs (ns_handshake s)"
    and call: "noise_handshake_step S rnd ok (Some s) inc out = Returns (rc, Some s', out')"
  obtains (null) "out = None" "rc = GN_ERR_NULL_ARG" "s' = s" "out' = None"
  | (rejected) hs where "out' = Some empty_buffer" "rc = GN_ERR_INVALID_ENVELOPE"
      "s' = s\<lparr>ns_handshake := hs\<rparr>" "messages_left hs = messages_left (ns_handshake s)" "wf_hs hs"
  | (finished) hs where "out' = Some empty_buffer" "rc = GN_OK" "s' = s\<lparr>ns_handshake := hs\<rparr>"
      "hs_progress S (ns_handshake s) hs" "is_complete hs" "wf_hs hs"
  | (turned) e hs0 hs where "turn_result e = (rc, the out')" "out' \<noteq> None" "s' = s\<lparr>ns_handshake := hs\<rparr>"
      "hs0 = ns_handshake s \<or> hs_progress S (ns_handshake s) hs0 \<and> \<not> is_complete hs0" "wf_hs hs0"
      "turn_changes S e hs0 hs" "wf_hs hs" "e = Lost \<longrightarrow> \<not> ok"
proof (cases out)
  case None
  with call null show ?thesis by (simp add: noise_handshake_step_def)
next
  case (Some b)
  have clear: "b\<lparr>sb_bytes := None, sb_size := 0, sb_free_user_data := None, sb_free_fn := None\<rparr> = empty_buffer"
    by simp
  have turn: thesis
    if "s' = s2" "out' = Some o2" "handshake_write_turn S rnd ok (s\<lparr>ns_handshake := h\<rparr>) empty_buffer = Returns (rc, s2, o2)"
      "h = ns_handshake s \<or> hs_progress S (ns_handshake s) h \<and> \<not> is_complete h" "wf_hs h" for h s2 o2
    using turn_effects [OF S rnd _ that(3)] that turned by auto
  show ?thesis
  proof (cases "inc = []")
    case True
    with call Some obtain s2 o2 where "s' = s2" "out' = Some o2"
      "handshake_write_turn S rnd ok (s\<lparr>ns_handshake := ns_handshake s\<rparr>) empty_buffer = Returns (rc, s2, o2)"
      by (auto simp: noise_handshake_step_def Let_def clear)
    from turn [OF this _ wf] show ?thesis by simp
  next
    case False
    with call Some obtain p hs where r: "read_message S inc (ns_handshake s) = Returns (p, hs)"
      by (auto simp: noise_handshake_step_def Let_def clear)
    from wf_read_message [OF run_lawsD(1) [OF S] wf r] read_message_identity [OF run_lawsD(1) [OF S] wf r]
    have hs: "wf_hs hs" "hs_step hs = hs_step (ns_handshake s) + (if p = None then 0 else 1)"
      "same_identity (ns_handshake s) hs" by simp_all
    consider "p = None" | q where "p = Some q" "is_complete hs" | q where "p = Some q" "\<not> is_complete hs" by auto
    then show ?thesis
    proof cases
      case 1
      with hs wf have "messages_left hs = messages_left (ns_handshake s)"
        by (simp add: messages_left_def wf_hs_def same_identity_def)
      with 1 call Some False r hs(1) rejected [of hs] show ?thesis by (auto simp: noise_handshake_step_def Let_def clear)
    next
      case 2
      with r have "hs_progress S (ns_handshake s) hs" by (blast intro: progress_read)
      with 2 call Some False r hs(1) finished [of hs] show ?thesis by (auto simp: noise_handshake_step_def Let_def clear)
    next
      case 3
      with r have prog: "hs_progress S (ns_handshake s) hs" by (blast intro: progress_read)
      from 3 call Some False r obtain s2 o2 where "s' = s2" "out' = Some o2"
        "handshake_write_turn S rnd ok (s\<lparr>ns_handshake := hs\<rparr>) empty_buffer = Returns (rc, s2, o2)"
        by (auto simp: noise_handshake_step_def Let_def clear)
      from turn [OF this _ hs(1)] prog 3 show ?thesis by simp
    qed
  qed
qed

lemma progress_left:
  assumes "run_laws S" "wf_hs a" "hs_progress S a b"
  shows "messages_left a = Suc (messages_left b)"
  using progress_step [OF run_lawsD(1,3) [OF assms(1)] assms(2,3)] by (simp add: messages_left_def is_complete_def)

lemma complete_left: "is_complete hs \<longleftrightarrow> messages_left hs = 0"
  by (simp add: messages_left_def is_complete_def)

section \<open>The phases of a session\<close>

datatype phase = Shaking nat | Completed | Exported

datatype session_event =
  StepCalled gn_result bool
| ExportCalled gn_result
| TransportCalled gn_result

definition shaking :: "nat \<Rightarrow> phase" where
  "shaking n = (if n = 0 then Completed else Shaking n)"

text \<open>
  The specification. The flag of a step says whether it emits a message. A step may take one
  inbound message and write one; a failed allocation loses the message that was written, and a
  failed write may leave an inbound message consumed.
\<close>

inductive phase_step :: "phase \<Rightarrow> session_event \<Rightarrow> phase \<Rightarrow> bool" where
  step_refused: "rc \<in> {GN_ERR_NULL_ARG, GN_ERR_INVALID_ENVELOPE} \<Longrightarrow> phase_step p (StepCalled rc False) p"
| step_waiting: "phase_step p (StepCalled GN_OK False) p"
| step_received: "0 < n \<Longrightarrow> phase_step (Shaking n) (StepCalled GN_OK False) (shaking (n - 1))"
| step_sent: "k \<in> {1, 2} \<Longrightarrow> k \<le> n \<Longrightarrow> phase_step (Shaking n) (StepCalled GN_OK True) (shaking (n - k))"
| step_lost: "k \<in> {1, 2} \<Longrightarrow> k \<le> n \<Longrightarrow>
    phase_step (Shaking n) (StepCalled GN_ERR_OUT_OF_MEMORY False) (shaking (n - k))"
| step_stuck: "1 < n \<Longrightarrow> phase_step (Shaking n) (StepCalled GN_ERR_INVALID_ENVELOPE False) (Shaking (n - 1))"
| exported: "phase_step Completed (ExportCalled GN_OK) Exported"
| export_refused: "rc \<noteq> GN_OK \<Longrightarrow> phase_step p (ExportCalled rc) p"
| transport_refused: "rc \<noteq> GN_OK \<Longrightarrow> phase_step p (TransportCalled rc) p"

text \<open>What the specification promises of every run.\<close>

fun phase_left :: "phase \<Rightarrow> nat" where
  "phase_left (Shaking n) = n"
| "phase_left _ = 0"

definition emits :: "session_event \<Rightarrow> bool" where
  "emits e \<longleftrightarrow> e = StepCalled GN_OK True"

definition exports :: "session_event \<Rightarrow> bool" where
  "exports e \<longleftrightarrow> e = ExportCalled GN_OK"

lemma phase_left_shaking [simp]: "phase_left (shaking n) = n"
  by (simp add: shaking_def)

lemma phase_emissions:
  "trace phase_step p es q \<Longrightarrow> length (filter emits es) + phase_left q \<le> phase_left p"
proof (induction rule: trace.induct)
  case (trace_Cons p e q es r)
  from trace_Cons(1) have "(if emits e then 1 else 0) + phase_left q \<le> phase_left p"
    by cases (auto simp: emits_def)
  with trace_Cons(3) show ?case by auto
qed simp

lemma phase_exports:
  "trace phase_step p es q \<Longrightarrow> length (filter exports es) + (if p = Exported then 1 else 0) = (if q = Exported then 1 else 0)"
proof (induction rule: trace.induct)
  case (trace_Cons p e q es r)
  from trace_Cons(1) have "(if exports e then 1 else 0) + (if p = Exported then 1 else 0) = (if q = Exported then 1 else (0::nat))"
    by cases (auto simp: exports_def shaking_def)
  with trace_Cons(3) show ?case by (auto split: if_splits)
qed simp

section \<open>Sessions implement the phases\<close>

definition emitted :: "gn_secure_buffer option \<Rightarrow> bool" where
  "emitted out \<longleftrightarrow> (case out of None \<Rightarrow> False | Some b \<Rightarrow> sb_bytes b \<noteq> None)"

lemma emitted_simps [simp]: "\<not> emitted None" "emitted (Some b) \<longleftrightarrow> sb_bytes b \<noteq> None"
  by (simp_all add: emitted_def)

inductive session_does :: "'h sodium \<Rightarrow> NoiseSession \<Rightarrow> session_event \<Rightarrow> NoiseSession \<Rightarrow> bool" for S where
  does_step: "length rnd = 32 \<Longrightarrow>
    noise_handshake_step S rnd ok (Some s) inc out = Returns (rc, Some s', out') \<Longrightarrow>
    session_does S s (StepCalled rc (emitted out')) s'"
| does_export: "noise_export_transport_keys S sz (Some s) keys = (rc, Some s', keys') \<Longrightarrow>
    session_does S s (ExportCalled rc) s'"
| does_encrypt: "noise_encrypt S ok (Some s) p out = Returns (rc, Some s', out') \<Longrightarrow>
    session_does S s (TransportCalled rc) s'"
| does_decrypt: "noise_decrypt S ok (Some s) w out = Returns (rc, Some s', out') \<Longrightarrow>
    session_does S s (TransportCalled rc) s'"
| does_rekey: "noise_rekey S (Some s) = (rc, Some s') \<Longrightarrow> session_does S s (TransportCalled rc) s'"

lemma session_does_call: "session_does S s e s' \<Longrightarrow> session_call S s s'"
  by (auto elim!: session_does.cases intro: session_call.intros)

definition session_phase :: "NoiseSession \<Rightarrow> phase" where
  "session_phase s = (if ns_split_done s then Exported else shaking (messages_left (ns_handshake s)))"

lemma phase_turned:
  assumes S: "run_laws S" and wf: "wf_hs a" "wf_hs a0"
    and read: "a0 = a \<or> hs_progress S a a0 \<and> \<not> is_complete a0"
    and turn: "turn_changes S e a0 b" "turn_result e = (rc, out)"
  shows "phase_step (shaking (messages_left a)) (StepCalled rc (emitted (Some out))) (shaking (messages_left b))"
proof -
  obtain j where j: "messages_left a = messages_left a0 + j" "j = 0 \<or> j = 1" "j = 1 \<Longrightarrow> 0 < messages_left a0"
    using read progress_left [OF S wf(1), of a0] by (cases "a0 = a") (force simp: complete_left)+
  show ?thesis
  proof (cases e)
    case Waiting
    with turn j show ?thesis
      using step_received [of "messages_left a"]
      by (cases j) (auto simp: turn_changes_def turn_result_def shaking_def intro: phase_step.intros)
  next
    case Failed
    with turn j show ?thesis
      using step_stuck [of "messages_left a"]
      by (cases j) (auto simp: turn_changes_def turn_result_def shaking_def intro: phase_step.intros)
  next
    case Lost
    with turn j progress_left [OF S wf(2), of b] step_lost [of "Suc j" "messages_left a"] show ?thesis
      by (auto simp: turn_changes_def turn_result_def shaking_def split: if_splits)
  next
    case (Emitted m)
    with turn j progress_left [OF S wf(2), of b] step_sent [of "Suc j" "messages_left a"] show ?thesis
      by (auto simp: turn_changes_def turn_result_def shaking_def split: if_splits)
  qed
qed

lemma shaking_received:
  assumes "run_laws S" "wf_hs a" "hs_progress S a b"
  shows "phase_step (shaking (messages_left a)) (StepCalled GN_OK False) (shaking (messages_left b))"
  using progress_left [OF assms] step_received [of "messages_left a"] by (simp add: shaking_def)

lemma phase_of_step:
  assumes S: "run_laws S" and inv: "session_inv s" and rnd: "length rnd = 32"
    and call: "noise_handshake_step S rnd ok (Some s) inc out = Returns (rc, Some s', out')"
  shows "phase_step (session_phase s) (StepCalled rc (emitted out')) (session_phase s')"
proof (cases "is_complete (ns_handshake s)")
  case True
  have "s' = s \<and> (rc, emitted out') \<in>
      {(GN_OK, False), (GN_ERR_INVALID_ENVELOPE, False), (GN_ERR_NULL_ARG, False)}"
    using call True
    by (auto simp: noise_handshake_step_def handshake_write_turn_eq Let_def read_complete write_complete
        split: if_splits option.splits)
  then have "s' = s" "\<not> emitted out'" "rc \<in> {GN_OK, GN_ERR_INVALID_ENVELOPE, GN_ERR_NULL_ARG}" by auto
  then show ?thesis by (auto intro: step_refused step_waiting)
next
  case False
  have wf: "wf_hs (ns_handshake s)" and open_: "\<not> ns_split_done s"
    using inv False by (auto simp: session_inv_def)
  from S rnd wf call show ?thesis
  proof (cases rule: step_effects)
    case null
    then show ?thesis by (simp add: step_refused)
  next
    case (rejected hs)
    then show ?thesis by (simp add: session_phase_def step_refused)
  next
    case (finished hs)
    with open_ shaking_received [OF S wf] show ?thesis by (simp add: session_phase_def)
  next
    case (turned e hs0 hs)
    then obtain b where b: "out' = Some b" by auto
    with phase_turned [OF S wf turned(5,4,6), of rc b] turned(1,3) open_ show ?thesis by (simp add: session_phase_def)
  qed
qed

lemma phase_of_export:
  assumes "session_inv s" and "noise_export_transport_keys S sz (Some s) keys = (rc, Some s', keys')"
  shows "phase_step (session_phase s) (ExportCalled rc) (session_phase s')"
  using assms
  by (auto simp: export_cases session_phase_def publish_exported_def publish_split_def shaking_def complete_left
      intro: phase_step.intros split: if_splits)

lemma session_does_phase:
  assumes S: "run_laws S" and inv: "session_inv s" and does: "session_does S s e s'"
  shows "phase_step (session_phase s) e (session_phase s')"
proof -
  have flags: "ns_keys_exported s = ns_split_done s" using inv by (simp add: session_inv_def)
  from does show ?thesis
  proof cases
    case (does_step rnd ok inc out rc out')
    with phase_of_step [OF S inv] show ?thesis by simp
  next
    case (does_export sz keys rc keys')
    with phase_of_export [OF inv] show ?thesis by simp
  qed (auto simp: transport_entries_refuse [OF flags] intro: transport_refused)
qed

interpretation session_phases: simulation "session_does S" phase_step session_phase
  "\<lambda>s. run_laws S \<and> session_laws S \<and> session_inv s"
  for S :: "'h sodium"
  by unfold_locales (auto intro: session_does_phase session_call_inv dest: session_does_call session_lawsD)

lemma fresh_total: "hs_steps_total (HandshakeState_new S pattern initiator kp rs) = pattern_total_steps pattern"
  by (simp add: HandshakeState_new_def Let_def split: option.splits)

lemma opened_phase:
  assumes "opened S s"
  shows "session_phase s = Shaking (nat (pattern_total_steps (hs_pattern (ns_handshake s))))"
proof -
  have "\<not> pattern_total_steps p \<le> 0" for p by (cases p) simp_all
  moreover from assms obtain pattern initiator kp rs where "s = NoiseSession_new S pattern initiator kp rs"
    unfolding opened_def using open_ok_session by blast
  ultimately show ?thesis
    by (simp add: session_phase_def NoiseSession_new_def shaking_def messages_left_def fresh_fields fresh_total)
qed

section \<open>Properties\<close>

text \<open>
  C32. The out-buffer of \<open>noise_handshake_step\<close> is well formed on every return path: it is the empty
  buffer, or the call returned \<open>GN_OK\<close> and the buffer owns a message of 32 to 96 bytes with its
  exact size and release function. A result \<open>GN_ERR_OUT_OF_MEMORY\<close> only follows a failed allocation; the
  message written by that call is then lost, since the handshake has already advanced past it.
\<close>

theorem handshake_step_buffer:
  assumes S: "run_laws S" and inv: "session_inv s" and rnd: "length rnd = 32"
    and call: "noise_handshake_step S rnd ok (Some s) inc (Some out) = Returns (rc, Some s', Some out')"
  shows "rc \<in> {GN_OK, GN_ERR_INVALID_ENVELOPE, GN_ERR_OUT_OF_MEMORY} \<and>
    (out' = empty_buffer \<or> rc = GN_OK \<and> (\<exists>m. out' = filled_buffer m \<and> 32 \<le> length m \<and> length m \<le> 96)) \<and>
    (rc = GN_ERR_OUT_OF_MEMORY \<longrightarrow> \<not> ok \<and> hs_step (ns_handshake s) < hs_step (ns_handshake s'))"
proof -
  have wf: "wf_hs (ns_handshake s)" using inv by (simp add: session_inv_def)
  note advance = progress_step(2) [OF run_lawsD(1,3) [OF S]]
  from S rnd wf call show ?thesis
  proof (cases rule: step_effects)
    case (turned e hs0 hs)
    have le: "hs_step (ns_handshake s) \<le> hs_step hs0" using turned(4) advance [OF wf, of hs0] by auto
    have "hs_step hs0 < hs_step hs" if "e = Lost"
      using turned(6) that advance [OF turned(5), of hs] by (simp add: turn_changes_def)
    with le turned show ?thesis
      by (cases e) (auto simp: turn_result_def turn_changes_def)
  qed simp_all
qed

theorem handshake_step_buffer_witness:
  "\<exists>s'. noise_handshake_step toy_sodium (replicate 32 7) False (Some (toy_session XX GN_ROLE_INITIATOR)) []
       (Some empty_buffer) = Returns (GN_ERR_OUT_OF_MEMORY, Some s', Some empty_buffer) \<and>
     hs_step (ns_handshake (toy_session XX GN_ROLE_INITIATOR)) < hs_step (ns_handshake s')"
proof -
  let ?a = "\<lparr>kp_pk = 9 # replicate 31 3, kp_sk = replicate 32 3\<rparr>" and ?e = "replicate 32 7 :: bytes"
  let ?s = "toy_session XX GN_ROLE_INITIATOR"
  have keys: "own_keypair toy_sodium (kp_sk ?a) (kp_pk ?a)" and len: "length ?e = 32" by (simp_all add: toy_keypair)
  have hs: "ns_handshake ?s = HandshakeState_new toy_sodium XX True ?a None"
    by (simp add: toy_session_def NoiseSession_new_def)
  obtain m i where "write_message toy_sodium ?e [] (ns_handshake ?s) = Returns (Some m, i)" and "length m = 32"
    unfolding hs using xx_trace [OF toy_run_laws keys keys len len len refl refl] by blast
  moreover have "on_turn ?s" by (simp add: on_turn_def toy_session_def NoiseSession_new_def fresh_fields)
  ultimately have call: "noise_handshake_step toy_sodium ?e False (Some ?s) [] (Some empty_buffer) =
      Returns (GN_ERR_OUT_OF_MEMORY, Some (?s\<lparr>ns_handshake := i\<rparr>), Some empty_buffer)"
    by (auto simp: noise_handshake_step_def handshake_write_turn_eq)
  have "session_inv ?s" using opened_inv toy_opened session_lawsD toy_session_laws by blast
  from handshake_step_buffer [OF toy_run_laws this len call] call show ?thesis by blast
qed

text \<open>
  C11. Sessions refine the phase automaton: whatever calls a host makes on a session it has opened, in
  any order and with any arguments, their result codes form a run of the automaton that starts
  with all messages of the pattern to go. Hence a session emits at most as many messages as the
  pattern has, its keys are exported at most once, and they have been exported exactly when the
  session is in the exported phase.
\<close>

theorem session_refines_phases:
  assumes "run_laws S" "session_laws S" "opened S s" and run: "trace (session_does S) s es t"
  shows "trace phase_step (Shaking (nat (pattern_total_steps (hs_pattern (ns_handshake s))))) es (session_phase t) \<and>
    length (filter emits es) \<le> nat (pattern_total_steps (hs_pattern (ns_handshake s))) \<and>
    length (filter exports es) = (if ns_split_done t then 1 else 0)"
proof -
  have inv: "session_inv s" using opened_inv assms(2,3) session_lawsD by blast
  have start: "session_phase s = Shaking (nat (pattern_total_steps (hs_pattern (ns_handshake s))))"
    by (rule opened_phase [OF assms(3)])
  from session_phases.trace_simulates [OF run] assms(1,2) inv
  have tr: "trace phase_step (session_phase s) es (session_phase t)" by blast
  from phase_emissions [OF tr] phase_exports [OF tr] tr start show ?thesis
    by (auto simp: session_phase_def shaking_def)
qed

theorem session_refines_phases_witness:
  "let s = toy_session XX GN_ROLE_INITIATOR; es = [StepCalled GN_OK True, StepCalled GN_OK True, ExportCalled GN_OK] in
   \<exists>t. trace (session_does toy_sodium) s es t \<and> trace phase_step (Shaking 3) es (session_phase t) \<and> ns_split_done t"
proof -
  let ?a = "\<lparr>kp_pk = 9 # replicate 31 3, kp_sk = replicate 32 3\<rparr>" and ?e = "replicate 32 1 :: bytes"
  let ?s = "toy_session XX GN_ROLE_INITIATOR" and ?es = "[StepCalled GN_OK True, StepCalled GN_OK True, ExportCalled GN_OK]"
  have keys: "own_keypair toy_sodium (kp_sk ?a) (kp_pk ?a)" and len: "length ?e = 32" by (simp_all add: toy_keypair)
  have s: "?s = NoiseSession_new toy_sodium XX True ?a None" by (simp add: toy_session_def)
  from xx_sessions_complete [OF toy_run_laws keys keys len len len] obtain m1 m2 m3 i' r'
    where run: "xx_exchange toy_sodium ?e ?e ?e ?s (NoiseSession_new toy_sodium XX False ?a None) m1 m2 m3 i' r'"
      and post: "agreed toy_sodium ?a ?a (ns_handshake i') (ns_handshake r')" "\<not> ns_split_done i'"
    unfolding s by (elim exE conjE) simp
  from run obtain i1
    where c1: "noise_handshake_step toy_sodium ?e True (Some ?s) [] (Some empty_buffer) =
        Returns (GN_OK, Some i1, Some (filled_buffer m1))"
      and c2: "noise_handshake_step toy_sodium ?e True (Some i1) m2 (Some empty_buffer) =
        Returns (GN_OK, Some i', Some (filled_buffer m3))"
    unfolding xx_exchange_def by (elim exE conjE) simp
  let ?t = "publish_exported (publish_split (snd (export_keys toy_sodium 0 i')))"
  have c3: "noise_export_transport_keys toy_sodium 0 (Some i') (Some blank_keys) =
      (GN_OK, Some ?t, Some (fst (export_keys toy_sodium 0 i')))"
    using post by (simp add: export_cases agreed_def)
  from does_step [OF len c1] does_step [OF len c2] does_export [OF c3]
  have run: "trace (session_does toy_sodium) ?s ?es ?t" by auto
  have three: "nat (pattern_total_steps (hs_pattern (ns_handshake ?s))) = 3"
    by (simp add: toy_session_def NoiseSession_new_def fresh_fields)
  have "ns_split_done ?t" by (simp add: publish_exported_def publish_split_def)
  with session_refines_phases [OF toy_run_laws toy_session_laws toy_opened run] run
  show ?thesis unfolding Let_def three by blast
qed

end
