(* ===== verification/Channel.thy ===== *)
theory Channel
  imports Transport
begin

text \<open>
  The transport as a duplex channel. The specification is a pair of unbounded first-in first-out
  queues of plaintexts; the implementation is two transport states and the ciphertexts in flight
  in each direction, with sends and deliveries interleaved in any order. The implementation
  refines the specification as long as neither direction reaches the rekey threshold. A second
  part gives the closed form of a run of sends across rekeys.
\<close>

section \<open>The specification\<close>

text \<open>The flag of an event is true for the direction from the left side to the right side.\<close>

datatype net_event = Send bool bytes | Deliver bool

datatype net_obs = Sent | Idle | Delivered bytes | Rejected

record queues =
  q_lr :: "bytes list"
  q_rl :: "bytes list"

fun dequeue :: "bytes list \<Rightarrow> net_obs \<times> bytes list" where
  "dequeue [] = (Idle, [])"
| "dequeue (p # ps) = (Delivered p, ps)"

fun fifo_step :: "net_event \<Rightarrow> queues \<Rightarrow> net_obs \<times> queues" where
  "fifo_step (Send left p) q =
     (Sent, if left then q\<lparr>q_lr := q_lr q @ [p]\<rparr> else q\<lparr>q_rl := q_rl q @ [p]\<rparr>)"
| "fifo_step (Deliver left) q =
     (let (ob, ps) = dequeue (if left then q_lr q else q_rl q)
      in (ob, if left then q\<lparr>q_lr := ps\<rparr> else q\<lparr>q_rl := ps\<rparr>))"

fun fifo_run :: "net_event list \<Rightarrow> queues \<Rightarrow> net_obs list \<times> queues" where
  "fifo_run [] q = ([], q)"
| "fifo_run (e # es) q =
     (let (ob, q1) = fifo_step e q; (obs, q2) = fifo_run es q1 in (ob # obs, q2))"

section \<open>The implementation\<close>

record network =
  nw_left :: TransportState
  nw_right :: TransportState
  nw_lr :: "bytes list"
  nw_rl :: "bytes list"

text \<open>A side sends with \<open>encrypt_frame\<close>; the first ciphertext in flight is given to \<open>decrypt_frame\<close>.\<close>

fun deliver_frame ::
  "'h sodium \<Rightarrow> bytes list \<Rightarrow> TransportState \<Rightarrow> (net_obs \<times> bytes list \<times> TransportState) outcome" where
  "deliver_frame S [] t = Returns (Idle, [], t)"
| "deliver_frame S (w # ws) t =
     bind_outcome (decrypt_frame S w t) (\<lambda>(p, t').
       Returns (case p of None \<Rightarrow> Rejected | Some p \<Rightarrow> Delivered p, ws, t'))"

fun net_step :: "'h sodium \<Rightarrow> net_event \<Rightarrow> network \<Rightarrow> (net_obs \<times> network) outcome" where
  "net_step S (Send left p) n =
     bind_outcome (encrypt_frame S p (if left then nw_left n else nw_right n)) (\<lambda>(w, t).
       Returns (Sent, if left then n\<lparr>nw_left := t, nw_lr := nw_lr n @ [w]\<rparr>
                      else n\<lparr>nw_right := t, nw_rl := nw_rl n @ [w]\<rparr>))"
| "net_step S (Deliver left) n =
     bind_outcome (deliver_frame S (if left then nw_lr n else nw_rl n) (if left then nw_right n else nw_left n))
       (\<lambda>(ob, ws, t). Returns (ob, if left then n\<lparr>nw_right := t, nw_lr := ws\<rparr>
                                 else n\<lparr>nw_left := t, nw_rl := ws\<rparr>))"

fun net_run :: "'h sodium \<Rightarrow> net_event list \<Rightarrow> network \<Rightarrow> (net_obs list \<times> network) outcome" where
  "net_run S [] n = Returns ([], n)"
| "net_run S (e # es) n =
     bind_outcome (net_step S e n) (\<lambda>(ob, n1).
       bind_outcome (net_run S es n1) (\<lambda>(obs, n2). Returns (ob # obs, n2)))"

section \<open>One direction\<close>

text \<open>
  \<open>pending\<close> relates the receiving cipher, the plaintexts on their way with their ciphertexts, and
  the sending cipher: the receiver is where the sender was before it sealed them.
\<close>

definition pending :: "'h sodium \<Rightarrow> CipherState \<Rightarrow> bytes list \<Rightarrow> bytes list \<Rightarrow> CipherState \<Rightarrow> bool" where
  "pending S rx ps ws tx \<longleftrightarrow> wf_cipher rx \<and>
     send_all (\<lambda>c p. encrypt_with_ad S [] p c) rx ps = Returns (ws, tx)"

lemma pending_start: "wf_cipher c \<Longrightarrow> pending S c [] [] c"
  by (simp add: pending_def)

lemma pending_Nil: "pending S rx [] ws tx \<Longrightarrow> ws = [] \<and> tx = rx"
  by (simp add: pending_def)

lemma send_all_snoc:
  "send_all f a ms = Returns (ws, a1) \<Longrightarrow> f a1 m = Returns (w, a2) \<Longrightarrow>
     send_all f a (ms @ [m]) = Returns (ws @ [w], a2)"
  by (induction ms arbitrary: a ws) auto

lemma pending_send:
  "pending S rx ps ws tx \<Longrightarrow> encrypt_with_ad S [] p tx = Returns (w, tx') \<Longrightarrow>
     pending S rx (ps @ [p]) (ws @ [w]) tx'"
  by (simp add: pending_def send_all_snoc)

lemma pending_deliver:
  assumes "aead_ok S" "pending S rx (p # ps) ws tx"
  shows "\<exists>w ws' rx'. ws = w # ws' \<and> decrypt_with_ad S [] w rx = Returns (Some p, rx') \<and>
    pending S rx' ps ws' tx"
proof -
  from assms(2) obtain w rx' ws' where e: "encrypt_with_ad S [] p rx = Returns (w, rx')"
    and rest: "send_all (\<lambda>c p. encrypt_with_ad S [] p c) rx' ps = Returns (ws', tx)" "ws = w # ws'"
    and wf: "wf_cipher rx" by (auto simp: pending_def)
  from cs.deliver [of S rx rx "[]" p w rx'] assms(1) wf e
  have "decrypt_with_ad S [] w rx = Returns (Some p, rx')" "wf_cipher rx'" by auto
  with rest show ?thesis by (simp add: pending_def)
qed

lemma pending_keeps_key:
  "send_all (\<lambda>c p. encrypt_with_ad S [] p c) a ps = Returns (ws, b) \<Longrightarrow>
     wf_cipher a \<Longrightarrow> wf_cipher b \<and> unat (cs_n a) \<le> unat (cs_n b)"
proof (induction ps arbitrary: a ws)
  case Nil
  then show ?case by simp
next
  case (Cons p ps)
  then obtain w a1 ws1 where e: "encrypt_with_ad S [] p a = Returns (w, a1)"
    and rest: "send_all (\<lambda>c p. encrypt_with_ad S [] p c) a1 ps = Returns (ws1, b)" by auto
  have "wf_cipher a1" by (rule wf_encrypt [OF Cons.prems(2) e])
  moreover have "unat (cs_n a) \<le> unat (cs_n a1)"
    using e by (auto simp: encrypt_with_ad_def Let_def unat_Suc_nonce split: if_splits)
  ultimately show ?case using Cons.IH [OF rest] by auto
qed

lemma pendingD:
  "pending S rx ps ws tx \<Longrightarrow> wf_cipher tx \<and> wf_cipher rx \<and> unat (cs_n rx) \<le> unat (cs_n tx)"
  using pending_keeps_key [of S rx ps ws tx] by (simp add: pending_def)

section \<open>Frames below the threshold\<close>

lemma threshold_iff: "REKEY_INTERVAL \<le> n \<longleftrightarrow> 2 ^ 60 \<le> unat n"
  by (simp add: word_le_nat_alt push_bit_eq_mult)

lemma needs_rekey_iff:
  "needs_rekey t \<longleftrightarrow> 2 ^ 60 \<le> unat (cs_n (ts_send t)) \<or> 2 ^ 60 \<le> unat (cs_n (ts_recv t))"
  unfolding needs_rekey_def send_nonce_def recv_nonce_def threshold_iff ..

lemma encrypt_advances:
  assumes "encrypt_with_ad S ad p c = Returns (w, c')"
  shows "unat (cs_n c') \<le> Suc (unat (cs_n c))"
  using assms by (auto simp: encrypt_with_ad_def Let_def unat_Suc_nonce split: if_splits)

lemma encrypt_below:
  assumes "Suc (unat (cs_n (ts_send t))) < 2 ^ 60" "unat (cs_n (ts_recv t)) < 2 ^ 60"
  shows "\<exists>w c. encrypt_with_ad S [] p (ts_send t) = Returns (w, c) \<and>
    encrypt_frame S p t = Returns (w, t\<lparr>ts_send := c\<rparr>) \<and> unat (cs_n c) \<le> Suc (unat (cs_n (ts_send t)))"
proof -
  have "cs_n (ts_send t) \<noteq> UINT64_MAX" using assms(1) by auto
  then obtain w c where e: "encrypt_with_ad S [] p (ts_send t) = Returns (w, c)"
    using encrypt_aborts_iff [of S "[]" p "ts_send t"] by (metis outcome.exhaust surj_pair)
  moreover have "\<not> needs_rekey (t\<lparr>ts_send := c\<rparr>)"
    using encrypt_advances [OF e] assms by (simp add: needs_rekey_iff)
  ultimately show ?thesis
    using encrypt_advances [OF e] by (simp add: encrypt_frame_def transport_encrypt_def)
qed

lemma decrypt_below:
  assumes "decrypt_with_ad S [] w (ts_recv t) = Returns (Some p, c)"
    and "unat (cs_n (ts_send t)) < 2 ^ 60" "unat (cs_n c) < 2 ^ 60"
  shows "decrypt_frame S w t = Returns (Some p, t\<lparr>ts_recv := c\<rparr>)"
  using assms by (simp add: decrypt_frame_def transport_decrypt_def needs_rekey_iff)

text \<open>The next frame of a direction is the head of its queue, and the other counter stays.\<close>

lemma deliver_pending:
  assumes S: "aead_ok S" and P: "pending S (ts_recv t) ps ws c"
    and room: "unat (cs_n (ts_send t)) < 2 ^ 60" "unat (cs_n c) < 2 ^ 60"
  obtains ws' t' where "deliver_frame S ws t = Returns (fst (dequeue ps), ws', t')"
    "ts_send t' = ts_send t" "pending S (ts_recv t') (snd (dequeue ps)) ws' c"
proof (cases ps)
  case Nil
  with P pending_Nil [of S "ts_recv t" ws c] that [of "[]" t] show ?thesis by simp
next
  case (Cons p ps')
  from pending_deliver [OF S, of "ts_recv t" p ps' ws c] P Cons obtain w ws' rx'
    where d: "ws = w # ws'" "decrypt_with_ad S [] w (ts_recv t) = Returns (Some p, rx')"
      and P': "pending S rx' ps' ws' c" by auto
  have "unat (cs_n rx') < 2 ^ 60" using pendingD [OF P'] room(2) by simp
  from decrypt_below [OF d(2) room(1) this] d(1) P' Cons that [of ws' "t\<lparr>ts_recv := rx'\<rparr>"]
  show ?thesis by simp
qed

section \<open>Simulation\<close>

fun sends :: "bool \<Rightarrow> net_event list \<Rightarrow> nat" where
  "sends left [] = 0"
| "sends left (Send l p # es) = (if l = left then Suc (sends left es) else sends left es)"
| "sends left (Deliver l # es) = sends left es"

text \<open>
  The abstraction relation, together with the room that the remaining events need below the
  threshold.
\<close>

definition refines :: "'h sodium \<Rightarrow> net_event list \<Rightarrow> network \<Rightarrow> queues \<Rightarrow> bool" where
  "refines S es n q \<longleftrightarrow>
     pending S (ts_recv (nw_right n)) (q_lr q) (nw_lr n) (ts_send (nw_left n)) \<and>
     pending S (ts_recv (nw_left n)) (q_rl q) (nw_rl n) (ts_send (nw_right n)) \<and>
     unat (cs_n (ts_send (nw_left n))) + sends True es < 2 ^ 60 \<and>
     unat (cs_n (ts_send (nw_right n))) + sends False es < 2 ^ 60"

lemma refines_step:
  assumes S: "aead_ok S" and R: "refines S (e # es) n q"
  shows "\<exists>n'. net_step S e n = Returns (fst (fifo_step e q), n') \<and> refines S es n' (snd (fifo_step e q))"
proof -
  have lr: "pending S (ts_recv (nw_right n)) (q_lr q) (nw_lr n) (ts_send (nw_left n))"
    and rl: "pending S (ts_recv (nw_left n)) (q_rl q) (nw_rl n) (ts_send (nw_right n))"
    using R by (simp_all add: refines_def)
  have room: "unat (cs_n (ts_recv (nw_left n))) < 2 ^ 60" "unat (cs_n (ts_recv (nw_right n))) < 2 ^ 60"
    "unat (cs_n (ts_send (nw_left n))) < 2 ^ 60" "unat (cs_n (ts_send (nw_right n))) < 2 ^ 60"
    using pendingD [OF lr] pendingD [OF rl] R by (auto simp: refines_def)
  show ?thesis
  proof (cases e)
    case (Send left p)
    show ?thesis
    proof (cases left)
      case True
      with R Send encrypt_below [of "nw_left n" S p] room obtain w c
        where "encrypt_with_ad S [] p (ts_send (nw_left n)) = Returns (w, c)"
          "encrypt_frame S p (nw_left n) = Returns (w, (nw_left n)\<lparr>ts_send := c\<rparr>)"
          "unat (cs_n c) \<le> Suc (unat (cs_n (ts_send (nw_left n))))" by (auto simp: refines_def)
      with True Send R pending_send [OF lr, of p w c] rl show ?thesis by (simp add: refines_def)
    next
      case False
      with R Send encrypt_below [of "nw_right n" S p] room obtain w c
        where "encrypt_with_ad S [] p (ts_send (nw_right n)) = Returns (w, c)"
          "encrypt_frame S p (nw_right n) = Returns (w, (nw_right n)\<lparr>ts_send := c\<rparr>)"
          "unat (cs_n c) \<le> Suc (unat (cs_n (ts_send (nw_right n))))" by (auto simp: refines_def)
      with False Send R pending_send [OF rl, of p w c] lr show ?thesis by (simp add: refines_def)
    qed
  next
    case (Deliver left)
    show ?thesis
    proof (cases left)
      case True
      from deliver_pending [OF S lr room(4,3)] obtain ws' t'
        where "deliver_frame S (nw_lr n) (nw_right n) = Returns (fst (dequeue (q_lr q)), ws', t')"
          "ts_send t' = ts_send (nw_right n)" "pending S (ts_recv t') (snd (dequeue (q_lr q))) ws' (ts_send (nw_left n))" .
      with True Deliver R rl show ?thesis by (simp add: refines_def case_prod_unfold Let_def)
    next
      case False
      from deliver_pending [OF S rl room(3,4)] obtain ws' t'
        where "deliver_frame S (nw_rl n) (nw_left n) = Returns (fst (dequeue (q_rl q)), ws', t')"
          "ts_send t' = ts_send (nw_left n)" "pending S (ts_recv t') (snd (dequeue (q_rl q))) ws' (ts_send (nw_right n))" .
      with False Deliver R lr show ?thesis by (simp add: refines_def case_prod_unfold Let_def)
    qed
  qed
qed

lemma refines_run:
  assumes S: "aead_ok S"
  shows "refines S es n q \<Longrightarrow>
    \<exists>n'. net_run S es n = Returns (fst (fifo_run es q), n') \<and> refines S [] n' (snd (fifo_run es q))"
proof (induction es arbitrary: n q)
  case Nil
  then show ?case by simp
next
  case (Cons e es)
  from refines_step [OF S Cons.prems] obtain n1 where
    step: "net_step S e n = Returns (fst (fifo_step e q), n1)" "refines S es n1 (snd (fifo_step e q))" by blast
  from Cons.IH [OF step(2)] step(1) show ?case by (auto simp: case_prod_unfold Let_def)
qed

section \<open>Sends across rekeys\<close>

text \<open>The key schedule of one direction: frame \<open>j\<close> belongs to epoch \<open>j div 2^60\<close>.\<close>

definition next_key :: "'h sodium \<Rightarrow> bytes \<Rightarrow> bytes" where
  "next_key S k = take 32 (crypto_aead_encrypt S (zeros 32) [] (encode_nonce UINT64_MAX) k)"

definition epoch_key :: "'h sodium \<Rightarrow> bytes \<Rightarrow> nat \<Rightarrow> bytes" where
  "epoch_key S k j = (next_key S ^^ (j div 2 ^ 60)) k"

definition epoch_nonce :: "nat \<Rightarrow> bytes" where
  "epoch_nonce j = encode_nonce (of_nat (j mod 2 ^ 60))"

definition sealed_frame :: "'h sodium \<Rightarrow> bytes \<Rightarrow> nat \<Rightarrow> bytes \<Rightarrow> bytes" where
  "sealed_frame S k j p = crypto_aead_encrypt S p [] (epoch_nonce j) (epoch_key S k j)"

lemma epoch_shift:
  "epoch_key S k (2 ^ 60 + j) = epoch_key S (next_key S k) j" "epoch_nonce (2 ^ 60 + j) = epoch_nonce j"
proof -
  have "(2 ^ 60 + j) div 2 ^ 60 = Suc (j div 2 ^ 60)" "(2 ^ 60 + j) mod 2 ^ 60 = j mod 2 ^ 60" by simp_all
  then show "epoch_key S k (2 ^ 60 + j) = epoch_key S (next_key S k) j"
    "epoch_nonce (2 ^ 60 + j) = epoch_nonce j"
    unfolding epoch_key_def epoch_nonce_def by (simp_all only: funpow_Suc_right o_apply)
qed

lemma sealed_frame_shift: "sealed_frame S k (2 ^ 60 + j) p = sealed_frame S (next_key S k) j p"
  by (simp only: sealed_frame_def epoch_shift)

lemma sealed_frame_first:
  assumes "unat n < 2 ^ 60"
  shows "sealed_frame S k (unat n) p = crypto_aead_encrypt S p [] (encode_nonce n) k"
proof -
  have "unat n div 2 ^ 60 = 0" "unat n mod 2 ^ 60 = unat n" using assms by simp_all
  then show ?thesis unfolding sealed_frame_def epoch_key_def epoch_nonce_def by (simp only: funpow_0) simp
qed

lemma rekey_next_key:
  "cs_has_key c \<Longrightarrow> wf_cipher c \<Longrightarrow> cs_k (rekey S c) = next_key S (cs_k c)"
  by (simp add: rekey_def next_key_def memcpy_def wf_cipher_def Let_def)

text \<open>One frame: the counter moves by one, or the direction enters the next epoch.\<close>

lemma encrypt_frame_epoch:
  assumes "settled t" "cs_has_key (ts_send t)"
  obtains t' where
    "encrypt_frame S p t = Returns (sealed_frame S (cs_k (ts_send t)) (unat (cs_n (ts_send t))) p, t')"
    "cs_has_key (ts_send t')"
    "Suc (unat (cs_n (ts_send t))) < 2 ^ 60 \<and> cs_k (ts_send t') = cs_k (ts_send t) \<and>
       unat (cs_n (ts_send t')) = Suc (unat (cs_n (ts_send t))) \<or>
     Suc (unat (cs_n (ts_send t))) = 2 ^ 60 \<and> cs_k (ts_send t') = next_key S (cs_k (ts_send t)) \<and>
       unat (cs_n (ts_send t')) = 0"
proof -
  let ?c = "ts_send t"
  let ?u = "t\<lparr>ts_send := ?c\<lparr>cs_n := cs_n ?c + 1\<rparr>\<rparr>"
  have n: "cs_n ?c \<noteq> UINT64_MAX" by (rule settled_nonces [OF assms(1)])
  have lt: "unat (cs_n ?c) < 2 ^ 60" "unat (cs_n (ts_recv t)) < 2 ^ 60" and wf: "wf_cipher ?c"
    using assms(1) unfolding settled_def needs_rekey_iff wf_transport_def not_le de_Morgan_disj by blast+
  have need: "needs_rekey ?u \<longleftrightarrow> Suc (unat (cs_n ?c)) = 2 ^ 60"
    using lt unat_Suc_nonce [OF n] unfolding needs_rekey_iff by auto
  have run: "encrypt_frame S p t =
      Returns (sealed_frame S (cs_k ?c) (unat (cs_n ?c)) p, if needs_rekey ?u then transport_rekey S ?u else ?u)"
    by (simp add: encrypt_frame_def transport_encrypt_def encrypt_keyed [OF assms(2) n] sealed_frame_first [OF lt(1)])
  show ?thesis
  proof (rule that [OF run])
    show "cs_has_key (ts_send (if needs_rekey ?u then transport_rekey S ?u else ?u))"
      using assms(2) by (simp add: transport_rekey_eq reset_nonce_to_zero_def)
    show "Suc (unat (cs_n ?c)) < 2 ^ 60 \<and>
        cs_k (ts_send (if needs_rekey ?u then transport_rekey S ?u else ?u)) = cs_k ?c \<and>
        unat (cs_n (ts_send (if needs_rekey ?u then transport_rekey S ?u else ?u))) = Suc (unat (cs_n ?c)) \<or>
      Suc (unat (cs_n ?c)) = 2 ^ 60 \<and>
        cs_k (ts_send (if needs_rekey ?u then transport_rekey S ?u else ?u)) = next_key S (cs_k ?c) \<and>
        unat (cs_n (ts_send (if needs_rekey ?u then transport_rekey S ?u else ?u))) = 0"
    proof (cases "Suc (unat (cs_n ?c)) = 2 ^ 60")
      case True
      with need assms(2) wf show ?thesis
        by (simp add: transport_rekey_eq reset_nonce_to_zero_def rekey_next_key wf_cipher_def)
    next
      case False
      with need lt(1) unat_Suc_nonce [OF n] show ?thesis by simp
    qed
  qed
qed

lemma send_run_epochs:
  assumes S: "aead_ok S"
  shows "settled t \<Longrightarrow> cs_has_key (ts_send t) \<Longrightarrow>
    \<exists>t'. send_all (\<lambda>t p. encrypt_frame S p t) t ps =
      Returns (map (\<lambda>i. sealed_frame S (cs_k (ts_send t)) (unat (cs_n (ts_send t)) + i) (ps ! i)) [0..<length ps], t')"
proof (induction ps arbitrary: t)
  case Nil
  then show ?case by simp
next
  case (Cons p ps)
  let ?k = "cs_k (ts_send t)" and ?n = "unat (cs_n (ts_send t))"
  from encrypt_frame_epoch [OF Cons.prems, of S p] obtain t1
    where e: "encrypt_frame S p t = Returns (sealed_frame S ?k ?n p, t1)" and key: "cs_has_key (ts_send t1)"
      and epoch: "Suc ?n < 2 ^ 60 \<and> cs_k (ts_send t1) = ?k \<and> unat (cs_n (ts_send t1)) = Suc ?n \<or>
        Suc ?n = 2 ^ 60 \<and> cs_k (ts_send t1) = next_key S ?k \<and> unat (cs_n (ts_send t1)) = 0" by blast
  have "settled t1" by (rule encrypt_frame_settled [OF S Cons.prems(1) e])
  from Cons.IH [OF this key] obtain t' where rest: "send_all (\<lambda>t p. encrypt_frame S p t) t1 ps =
      Returns (map (\<lambda>i. sealed_frame S (cs_k (ts_send t1)) (unat (cs_n (ts_send t1)) + i) (ps ! i)) [0..<length ps], t')"
    by blast
  have "sealed_frame S (cs_k (ts_send t1)) (unat (cs_n (ts_send t1)) + i) q = sealed_frame S ?k (?n + Suc i) q" for i q
  proof (rule disjE [OF epoch])
    assume "Suc ?n = 2 ^ 60 \<and> cs_k (ts_send t1) = next_key S ?k \<and> unat (cs_n (ts_send t1)) = 0"
    moreover have "?n + Suc i = Suc ?n + i" by simp
    ultimately show ?thesis by (simp only: sealed_frame_shift add_0)
  qed simp
  with e rest show ?case by (simp add: map_upt_Suc del: upt_Suc)
qed

lemma epochs_distinct: "distinct (map (\<lambda>i. (i div 2 ^ 60, epoch_nonce i)) [m..<n])"
proof -
  have "i = j" if "i div 2 ^ 60 = j div 2 ^ 60" "epoch_nonce i = epoch_nonce j" for i j
  proof -
    from that(2) have "of_nat (i mod 2 ^ 60) = (of_nat (j mod 2 ^ 60) :: 64 word)"
      by (auto simp only: epoch_nonce_def dest: encode_nonce_inj)
    then have "unat (of_nat (i mod 2 ^ 60) :: 64 word) = unat (of_nat (j mod 2 ^ 60) :: 64 word)" by (rule arg_cong)
    moreover have "unat (of_nat (k mod 2 ^ 60) :: 64 word) = k mod 2 ^ 60" for k
    proof -
      have "k mod 2 ^ 60 < 2 ^ 60" by simp
      then have "k mod 2 ^ 60 < 2 ^ 64" by simp
      then show ?thesis by (simp only: unat_of_nat) simp
    qed
    ultimately have "i mod 2 ^ 60 = j mod 2 ^ 60" by (simp only:)
    with that(1) show ?thesis by (metis div_mult_mod_eq)
  qed
  then show ?thesis by (auto simp only: distinct_map distinct_upt inj_on_def prod.inject)
qed

text \<open>Two mirrored transports with nothing in flight refine two empty queues.\<close>

lemma mirrored_fifo:
  assumes "aead_ok S" and "wf_transport a"
    and "unat (send_nonce a) + sends True es < 2 ^ 60"
    and "unat (recv_nonce a) + sends False es < 2 ^ 60"
  shows "\<exists>n'. net_run S es \<lparr>nw_left = a, nw_right = peer_view a, nw_lr = [], nw_rl = []\<rparr> =
    Returns (fst (fifo_run es \<lparr>q_lr = [], q_rl = []\<rparr>), n')"
proof -
  have "refines S es \<lparr>nw_left = a, nw_right = peer_view a, nw_lr = [], nw_rl = []\<rparr> \<lparr>q_lr = [], q_rl = []\<rparr>"
    using assms(2-) by (simp add: refines_def pending_start wf_transport_def send_nonce_def recv_nonce_def)
  from refines_run [OF assms(1) this] show ?thesis by blast
qed

section \<open>Properties\<close>

text \<open>
  C10. The transport implements a duplex first-in first-out channel: for two mirrored transport
  states and every interleaving of sends and deliveries in both directions, with any number of
  frames in flight and crossing each other, the observations are those of a pair of queues. Every
  delivered frame is the oldest undelivered plaintext of its direction, none is rejected, and no
  counter guard fires. The condition is that neither direction reaches the rekey threshold.
\<close>

theorem transport_refines_fifo:
  assumes "aead_ok S" and "wf_transport a"
    and "unat (send_nonce a) + sends True es < 2 ^ 60"
    and "unat (recv_nonce a) + sends False es < 2 ^ 60"
  shows "\<exists>n'. net_run S es \<lparr>nw_left = a, nw_right = peer_view a, nw_lr = [], nw_rl = []\<rparr> =
    Returns (fst (fifo_run es \<lparr>q_lr = [], q_rl = []\<rparr>), n')"
  by (rule mirrored_fifo [OF assms])

theorem transport_refines_fifo_witness:
  "let a = TransportState_new toy_sodium (initialize_key (replicate 32 3) CipherState_default)
             (initialize_key (replicate 32 5) CipherState_default) in
   \<exists>n'. net_run toy_sodium
       [Send True [1], Send False [2], Send True [3], Deliver False, Deliver True, Deliver True, Deliver True]
       \<lparr>nw_left = a, nw_right = peer_view a, nw_lr = [], nw_rl = []\<rparr> =
     Returns ([Sent, Sent, Sent, Delivered [2], Delivered [1], Delivered [3], Idle], n')"
proof -
  let ?a = "TransportState_new toy_sodium (initialize_key (replicate 32 3) CipherState_default)
             (initialize_key (replicate 32 5) CipherState_default)"
  let ?es = "[Send True [1], Send False [2], Send True [3], Deliver False, Deliver True, Deliver True, Deliver True]"
  have a: "wf_transport ?a" "unat (send_nonce ?a) = 0" "unat (recv_nonce ?a) = 0"
    by (simp_all add: wf_transport_def wf_cipher_def send_nonce_def recv_nonce_def TransportState_new_def
        cipher_move_def initialize_key_def)
  have "fst (fifo_run ?es \<lparr>q_lr = [], q_rl = []\<rparr>) =
      [Sent, Sent, Sent, Delivered [2], Delivered [1], Delivered [3], Idle]" by simp
  with transport_refines_fifo [OF toy_aead_ok a(1), of ?es] a(2,3) show ?thesis unfolding Let_def by simp
qed

text \<open>
  C26. The key schedule in closed form: a keyed side whose counters are below the threshold can send
  any number of frames; frame \<open>i\<close> of the run, with \<open>j = n + i\<close>, is sealed with the counter value
  \<open>j mod 2^60\<close> under the key of epoch \<open>j div 2^60\<close>, which is the initial key rekeyed that many
  times. No pair of an epoch and a nonce occurs twice.
\<close>

theorem sends_follow_key_schedule:
  assumes "aead_ok S" and "wf_transport a" and "\<not> needs_rekey a" and "cs_has_key (ts_send a)"
  shows "let n = unat (send_nonce a); k = cs_k (ts_send a) in
    (\<exists>a'. send_all (\<lambda>t p. encrypt_frame S p t) a ps =
       Returns (map (\<lambda>i. crypto_aead_encrypt S (ps ! i) [] (epoch_nonce (n + i)) (epoch_key S k (n + i)))
         [0..<length ps], a')) \<and>
    distinct (map (\<lambda>j. (j div 2 ^ 60, epoch_nonce j)) [n..<n + length ps])"
proof -
  have "settled a" using assms(2,3) by (simp add: settled_def)
  from send_run_epochs [OF assms(1) this assms(4), of ps] show ?thesis
    unfolding Let_def send_nonce_def sealed_frame_def using epochs_distinct by blast
qed

theorem sends_follow_key_schedule_witness:
  "let a = TransportState_new toy_sodium (initialize_key (replicate 32 3) CipherState_default) CipherState_default in
   \<exists>a'. send_all (\<lambda>t p. encrypt_frame toy_sodium p t) a [[1], [2]] =
     Returns (map (\<lambda>i. crypto_aead_encrypt toy_sodium ([[1], [2]] ! i) [] (epoch_nonce (0 + i))
       (epoch_key toy_sodium (replicate 32 3) (0 + i))) [0..<length [[1], [2 :: byte]]], a')"
proof -
  let ?a = "TransportState_new toy_sodium (initialize_key (replicate 32 3) CipherState_default) CipherState_default"
  have a: "wf_transport ?a" "\<not> needs_rekey ?a" "cs_has_key (ts_send ?a)" "unat (send_nonce ?a) = 0"
    "cs_k (ts_send ?a) = replicate 32 3"
    by (simp_all add: wf_transport_def wf_cipher_def needs_rekey_iff send_nonce_def TransportState_new_def
        cipher_move_def initialize_key_def CipherState_default_def)
  from sends_follow_key_schedule [OF toy_aead_ok a(1-3), of "[[1], [2]]"] show ?thesis
    unfolding Let_def a(4,5) by blast
qed

end
