(* ===== verification/Spec2Isabelle.thy ===== *)
theory Spec2Isabelle
  imports Plugin Noise_IK Session_Phases Channel
begin

text \<open>
  A model of the GoodNet Noise security provider and the theorems that make it correct.

  \<^bold>\<open>The program.\<close> The repository is a plugin that gives a host encrypted and authenticated
  connections with the Noise protocol framework over X25519, ChaCha20-Poly1305 and BLAKE2b. It is
  layered, each layer calling the one below it: digest, HMAC and HKDF; the cipher state (a key and a
  64-bit nonce counter); the symmetric state (chaining key, transcript hash, handshake cipher);
  the handshake state (the message state machine for the patterns XX and IK); the transport state
  (two ciphers with rekey); the session and the entries of the provider's vtable; the plugin
  that registers the two providers \<open>noise\<close> and \<open>noise-ik\<close> with a host. A session is opened with
  Ed25519 keys, driven by \<open>handshake_step\<close> until the pattern is complete, and then exports its
  transport keys to the host.

  \<^bold>\<open>Theories and sources.\<close>
  \<^item> \<open>Prelude\<close>: bytes, \<^verbatim>\<open>memcpy\<close>, outcomes with process abort, command sequences, and the interfaces
    as locales: \<open>framed_link\<close> and \<open>live_link\<close> (ordered message links), \<open>zeroising_move\<close> (objects whose
    moves leave no secret), \<open>safe_machine\<close> (invariants over call sequences), \<open>simulation\<close> (a
    machine and its specification), \<open>two_part_digest\<close>.
  \<^item> \<open>Sodium\<close>: libsodium as a record of parameters, its documented laws as the predicates
    \<open>hash_ok\<close>, \<open>aead_ok\<close>, \<open>aead_exact\<close>, \<open>dh_ok\<close>, \<open>conv_ok\<close>, \<open>erase_ok\<close>, and a computable instance that
    satisfies all of them, used by the witnesses.
  \<^item> \<open>Hash\<close>, \<open>Hmac\<close>, \<open>Hkdf\<close>: \<^verbatim>\<open>hash.cpp\<close>, \<^verbatim>\<open>hmac.cpp\<close>, \<^verbatim>\<open>hkdf.cpp\<close>, equal to RFC 2104 and to the HKDF of the
    Noise specification.
  \<^item> \<open>Cipher\<close>: \<^verbatim>\<open>cipher.hpp\<close> and \<^verbatim>\<open>cipher.cpp\<close>; nonce uniqueness, round trip, authenticity, error
    behaviour.
  \<^item> \<open>Symmetric\<close>: \<^verbatim>\<open>symmetric.hpp\<close> and \<^verbatim>\<open>symmetric.cpp\<close>.
  \<^item> \<open>Handshake\<close>: \<^verbatim>\<open>handshake.hpp\<close> and \<^verbatim>\<open>handshake.cpp\<close>. \<open>Handshake_Inv\<close>: buffer sizes, step counter,
    call sequences, erasure by moves, destruction and split. \<open>Noise_Pattern\<close>: the token patterns
    of the Noise specification with an interpreter, and the refinement of the hand-written switches
    to it. \<open>Handshake_Sync\<close> and \<open>Handshake_Run\<close>: the simulation between a writer and a reader of the same
    tokens, and complete runs of both patterns. \<open>Noise_IK\<close>: where the second IK message departs
    from the specification. \<open>Handshake_Auth\<close>: what an accepted message proves.
    \<open>Handshake_Progress\<close>: a handshake terminates, stays far from the nonce guards, bounds the sizes of
    its messages, and what a rejected message leaves behind.
  \<^item> \<open>Transport\<close>: \<^verbatim>\<open>transport.hpp\<close> and the frame paths of \<^verbatim>\<open>noise.cpp\<close>, with rekey at the threshold.
    \<open>Channel\<close>: two transports with frames in flight refine a pair of queues, and the closed form of
    the key schedule across rekeys.
  \<^item> \<open>Provider\<close>: the session and vtable entries of \<^verbatim>\<open>noise.cpp\<close>. \<open>Session\<close>: the session as a state
    machine, its invariant, the error behaviour of the entries, the flag writes of the export.
    \<open>Session_Phases\<close>: the contract of a session as an automaton over calls and result codes, and its
    refinement; the out-buffer of \<open>handshake_step\<close> on every return path.
  \<^item> \<open>Plugin\<close>: vtables, descriptor and plugin entries of \<^verbatim>\<open>noise.cpp\<close>.
  \<^item> This theory: properties that span the components, from opening to exported keys, from
    handshake to transport traffic, and a host loop that drives two sessions through the vtable of a
    registered provider.

  \<^bold>\<open>Correspondence.\<close> A class is a record with the members of the class (prefixes \<open>cs_\<close>, \<open>ss_\<close>, \<open>hs_\<close>,
  \<open>ts_\<close>, \<open>ns_\<close>) and one function per member function, which takes the object last and returns the
  updated object with the result. A move returns the new object and what is left of the old one.
  The two calls of \<^verbatim>\<open>std::abort\<close> (nonce exhaustion) are the outcomes \<open>Aborts\<close>; an \<^verbatim>\<open>optional\<close> is an
  \<open>option\<close>; a nullable pointer is an \<open>option\<close>; result codes are a datatype. Random bytes and the success of
  an allocation are arguments. A message function runs a list of commands, one per local lambda
  call, and keeps the effects of the commands before a failing one, as the code does.

  \<^bold>\<open>Bounds.\<close> All functions are total; there is no fuel. The nonce counter is a 64-bit word and the
  rekey threshold is \<open>2^60\<close>. A handshake call moves the counter of the handshake cipher by at most two
  and writes a message of 32 to 96 bytes plus its payload. A cipher without rekey delivers \<open>2^64 - 1 - n\<close> frames; with the rekey
  at the threshold there is no bound.

  \<^bold>\<open>Not modelled.\<close> libsodium and the SDK (parameters); wipes of stack buffers that are dead
  afterwards; exceptions of the allocator, except on the path that \<open>split\<close> guards; the memory
  model of concurrent calls, except the interleaving of the export's two flag writes; the kernel's
  inline cipher that uses the exported keys (not part of the repository); tests and build files.
\<close>

section \<open>Two peers, from opening to exported keys\<close>

lemma open_xx:
  assumes "ed25519_to_x25519 S sk pk = Some kp"
  shows "noise_handshake_open_xx S True role (Some sk) (Some pk) remote (Some old) =
    (GN_OK, Some (Some (NoiseSession_new S XX (role = GN_ROLE_INITIATOR) kp None)))"
  using assms by (simp add: noise_handshake_open_xx_def open_impl_cases)

lemma open_ik:
  assumes "ed25519_to_x25519 S sk pk = Some kp"
  shows "noise_handshake_open_ik S True GN_ROLE_RESPONDER (Some sk) (Some pk) remote (Some old) =
      (GN_OK, Some (Some (NoiseSession_new S IK False kp None)))"
    "crypto_sign_ed25519_pk_to_curve25519 S peer = Some rs \<Longrightarrow>
     noise_handshake_open_ik S True GN_ROLE_INITIATOR (Some sk) (Some pk) (Some peer) (Some old) =
      (GN_OK, Some (Some (NoiseSession_new S IK True kp (Some rs))))"
  using assms by (simp_all add: noise_handshake_open_ik_def open_impl_cases)

lemma converted_pk:
  "ed25519_to_x25519 S sk pk = Some kp \<Longrightarrow> crypto_sign_ed25519_pk_to_curve25519 S pk = Some (kp_pk kp)"
  by (auto simp: ed25519_to_x25519_def split: option.splits)

text \<open>The exported structures of two peers, mirrored.\<close>

definition mirrored_exports :: "Keypair \<Rightarrow> Keypair \<Rightarrow> gn_handshake_keys \<Rightarrow> gn_handshake_keys \<Rightarrow> bool" where
  "mirrored_exports a b ki kr \<longleftrightarrow>
     hk_send_cipher_key ki = hk_recv_cipher_key kr \<and> hk_recv_cipher_key ki = hk_send_cipher_key kr \<and>
     length (hk_send_cipher_key ki) = 32 \<and> length (hk_recv_cipher_key ki) = 32 \<and>
     hk_handshake_hash ki = hk_handshake_hash kr \<and> length (hk_handshake_hash ki) = 32 \<and>
     hk_peer_static_pk ki = kp_pk b \<and> hk_peer_static_pk kr = kp_pk a \<and>
     hk_initial_send_nonce ki = 0 \<and> hk_initial_recv_nonce ki = 0 \<and>
     hk_initial_send_nonce kr = 0 \<and> hk_initial_recv_nonce kr = 0"

lemma mirrored_exportsI:
  assumes "hash_ok S" "wf_hs (ns_handshake i)" "wf_hs (ns_handshake r)"
    and "agreed S a b (ns_handshake i) (ns_handshake r)" "\<not> ns_split_done i" "\<not> ns_split_done r"
  shows "\<exists>i' r' ki kr.
    noise_export_transport_keys S sz (Some i) (Some k) = (GN_OK, Some i', Some ki) \<and>
    noise_export_transport_keys S sz (Some r) (Some k) = (GN_OK, Some r', Some kr) \<and>
    mirrored_exports a b ki kr"
  using agreed_exports [OF assms] unfolding mirrored_exports_def by blast

lemma toy_keys:
  "x \<noteq> 0 \<Longrightarrow> ed25519_to_x25519 toy_sodium (replicate 64 x) (replicate 32 x) =
     Some \<lparr>kp_pk = 9 # replicate 31 x, kp_sk = replicate 32 x\<rparr>"
  by (simp add: ed25519_to_x25519_def toy_conversions)

section \<open>A host that drives two sessions through a vtable\<close>








section \<open>Properties\<close>

text \<open>
  C1. XX from opening to export: two hosts that open an XX session each with a convertible Ed25519
  key pair and exchange the three messages through \<open>handshake_step\<close> get \<open>GN_OK\<close> from every call; both
  sessions are then complete, both exports succeed, the send key of one side is the receive key
  of the other, the 32-byte channel bindings are equal, each side is given the other's X25519
  static key, and both nonces start at zero.
\<close>

theorem xx_sessions_export_mirrored_keys:
  assumes S: "run_laws S"
    and conv: "ed25519_to_x25519 S ski pki = Some a" "ed25519_to_x25519 S skr pkr = Some b"
    and keys: "own_keypair S (kp_sk a) (kp_pk a)" "own_keypair S (kp_sk b) (kp_pk b)"
    and rnd: "length e1 = 32" "length e2 = 32" "length e3 = 32"
  shows "\<exists>i0 r0 m1 m2 m3 i r i' r' ki kr.
    noise_handshake_open_xx S True GN_ROLE_INITIATOR (Some ski) (Some pki) None (Some None) = (GN_OK, Some (Some i0)) \<and>
    noise_handshake_open_xx S True GN_ROLE_RESPONDER (Some skr) (Some pkr) None (Some None) = (GN_OK, Some (Some r0)) \<and>
    xx_exchange S e1 e2 e3 i0 r0 m1 m2 m3 i r \<and> length m1 = 32 \<and> length m2 = 96 \<and> length m3 = 64 \<and>
    noise_handshake_complete (Some i) = 1 \<and> noise_handshake_complete (Some r) = 1 \<and>
    noise_export_transport_keys S sz (Some i) (Some k) = (GN_OK, Some i', Some ki) \<and>
    noise_export_transport_keys S sz (Some r) (Some k) = (GN_OK, Some r', Some kr) \<and>
    mirrored_exports a b ki kr"
proof -
  from xx_sessions_complete [OF S keys rnd] obtain m1 m2 m3 i r
    where run: "xx_exchange S e1 e2 e3 (NoiseSession_new S XX True a None) (NoiseSession_new S XX False b None) m1 m2 m3 i r"
      "length m1 = 32" "length m2 = 96" "length m3 = 64"
      and post: "wf_hs (ns_handshake i)" "wf_hs (ns_handshake r)" "agreed S a b (ns_handshake i) (ns_handshake r)"
      "\<not> ns_split_done i" "\<not> ns_split_done r" by blast
  have "noise_handshake_complete (Some i) = 1" "noise_handshake_complete (Some r) = 1"
    using post(3) by (simp_all add: noise_handshake_complete_def agreed_def)
  moreover have
    "noise_handshake_open_xx S True GN_ROLE_INITIATOR (Some ski) (Some pki) None (Some None) =
       (GN_OK, Some (Some (NoiseSession_new S XX True a None)))"
    "noise_handshake_open_xx S True GN_ROLE_RESPONDER (Some skr) (Some pkr) None (Some None) =
       (GN_OK, Some (Some (NoiseSession_new S XX False b None)))"
    by (simp_all add: open_xx conv)
  ultimately show ?thesis
    using run mirrored_exportsI [OF run_lawsD(1) [OF S] post, of sz k] by blast
qed

theorem xx_sessions_export_mirrored_keys_witness:
  "let a = \<lparr>kp_pk = 9 # replicate 31 3, kp_sk = replicate 32 3\<rparr>;
       b = \<lparr>kp_pk = 9 # replicate 31 5, kp_sk = replicate 32 5\<rparr> in
   \<exists>i0 r0 m1 m2 m3 i r i' r' ki kr.
    noise_handshake_open_xx toy_sodium True GN_ROLE_INITIATOR (Some (replicate 64 3)) (Some (replicate 32 3))
      None (Some None) = (GN_OK, Some (Some i0)) \<and>
    noise_handshake_open_xx toy_sodium True GN_ROLE_RESPONDER (Some (replicate 64 5)) (Some (replicate 32 5))
      None (Some None) = (GN_OK, Some (Some r0)) \<and>
    xx_exchange toy_sodium (replicate 32 1) (replicate 32 2) (replicate 32 4) i0 r0 m1 m2 m3 i r \<and>
    length m1 = 32 \<and> length m2 = 96 \<and> length m3 = 64 \<and>
    noise_handshake_complete (Some i) = 1 \<and> noise_handshake_complete (Some r) = 1 \<and>
    noise_export_transport_keys toy_sodium 168 (Some i) (Some blank_keys) = (GN_OK, Some i', Some ki) \<and>
    noise_export_transport_keys toy_sodium 168 (Some r) (Some blank_keys) = (GN_OK, Some r', Some kr) \<and>
    mirrored_exports a b ki kr"
  unfolding Let_def
  by (rule xx_sessions_export_mirrored_keys) (simp_all add: toy_keys toy_keypair)

text \<open>
  C16. IK from opening to export: the same for two IK sessions, three calls and two messages, when
  the initiator opens its session with the responder's Ed25519 public key.
\<close>

theorem ik_sessions_export_mirrored_keys:
  assumes S: "run_laws S"
    and conv: "ed25519_to_x25519 S ski pki = Some a" "ed25519_to_x25519 S skr pkr = Some b"
    and keys: "own_keypair S (kp_sk a) (kp_pk a)" "own_keypair S (kp_sk b) (kp_pk b)"
    and rnd: "length e1 = 32" "length e2 = 32"
  shows "\<exists>i0 r0 m1 m2 i r i' r' ki kr.
    noise_handshake_open_ik S True GN_ROLE_INITIATOR (Some ski) (Some pki) (Some pkr) (Some None) = (GN_OK, Some (Some i0)) \<and>
    noise_handshake_open_ik S True GN_ROLE_RESPONDER (Some skr) (Some pkr) None (Some None) = (GN_OK, Some (Some r0)) \<and>
    ik_exchange S e1 e2 i0 r0 m1 m2 i r \<and> length m1 = 96 \<and> length m2 = 48 \<and>
    noise_handshake_complete (Some i) = 1 \<and> noise_handshake_complete (Some r) = 1 \<and>
    noise_export_transport_keys S sz (Some i) (Some k) = (GN_OK, Some i', Some ki) \<and>
    noise_export_transport_keys S sz (Some r) (Some k) = (GN_OK, Some r', Some kr) \<and>
    mirrored_exports a b ki kr"
proof -
  from ik_sessions_complete [OF S keys rnd] obtain m1 m2 i r
    where run: "ik_exchange S e1 e2 (NoiseSession_new S IK True a (Some (kp_pk b)))
        (NoiseSession_new S IK False b None) m1 m2 i r" "length m1 = 96" "length m2 = 48"
      and post: "wf_hs (ns_handshake i)" "wf_hs (ns_handshake r)" "agreed S a b (ns_handshake i) (ns_handshake r)"
      "\<not> ns_split_done i" "\<not> ns_split_done r" by blast
  have "noise_handshake_complete (Some i) = 1" "noise_handshake_complete (Some r) = 1"
    using post(3) by (simp_all add: noise_handshake_complete_def agreed_def)
  then show ?thesis
    using run mirrored_exportsI [OF run_lawsD(1) [OF S] post, of sz k]
      open_ik(1) [OF conv(2), of None None] open_ik(2) [OF conv(1) converted_pk [OF conv(2)], of None] by blast
qed

theorem ik_sessions_export_mirrored_keys_witness:
  "let a = \<lparr>kp_pk = 9 # replicate 31 3, kp_sk = replicate 32 3\<rparr>;
       b = \<lparr>kp_pk = 9 # replicate 31 5, kp_sk = replicate 32 5\<rparr> in
   \<exists>i0 r0 m1 m2 i r i' r' ki kr.
    noise_handshake_open_ik toy_sodium True GN_ROLE_INITIATOR (Some (replicate 64 3)) (Some (replicate 32 3))
      (Some (replicate 32 5)) (Some None) = (GN_OK, Some (Some i0)) \<and>
    noise_handshake_open_ik toy_sodium True GN_ROLE_RESPONDER (Some (replicate 64 5)) (Some (replicate 32 5))
      None (Some None) = (GN_OK, Some (Some r0)) \<and>
    ik_exchange toy_sodium (replicate 32 1) (replicate 32 2) i0 r0 m1 m2 i r \<and>
    length m1 = 96 \<and> length m2 = 48 \<and>
    noise_handshake_complete (Some i) = 1 \<and> noise_handshake_complete (Some r) = 1 \<and>
    noise_export_transport_keys toy_sodium 168 (Some i) (Some blank_keys) = (GN_OK, Some i', Some ki) \<and>
    noise_export_transport_keys toy_sodium 168 (Some r) (Some blank_keys) = (GN_OK, Some r', Some kr) \<and>
    mirrored_exports a b ki kr"
  unfolding Let_def
  by (rule ik_sessions_export_mirrored_keys) (simp_all add: toy_keys toy_keypair)

text \<open>
  C13. From handshake to transport: after an XX handshake, transport states built from the ciphers
  that the two sides' \<open>split\<close> returns carry a conversation of any length in lock-step, that is, in any
  order of speakers but with each frame delivered before the next one is sent by either side: no
  frame is rejected or altered and no counter is exhausted. In addition, frames may be in flight
  and cross each other in any interleaving as long as neither direction reaches the rekey
  threshold: the observations are then those of a pair of first-in first-out queues.
\<close>

theorem handshake_then_conversation:
  assumes S: "run_laws S" and keys: "own_keypair S (kp_sk a) (kp_pk a)" "own_keypair S (kp_sk b) (kp_pk b)"
    and rnd: "length e1 = 32" "length e2 = 32" "length e3 = 32"
  shows "\<exists>ms i r ti tr ti' tr'.
    run_handshake S [(e1, p1), (e2, p2), (e3, p3)]
      (HandshakeState_new S XX True a None) (HandshakeState_new S XX False b None) =
      Returns (Some (ms, [p1, p2, p3], i, r)) \<and>
    ti = TransportState_new S (tp_send (fst (hs_split S i))) (tp_recv (fst (hs_split S i))) \<and>
    tr = TransportState_new S (tp_send (fst (hs_split S r))) (tp_recv (fst (hs_split S r))) \<and>
    cs_has_key (ts_send ti) \<and> cs_has_key (ts_recv ti) \<and>
    converse S xs ti tr = Returns (Some (map snd xs, ti', tr')) \<and> tr' = peer_view ti' \<and>
    (sends True es < 2 ^ 60 \<and> sends False es < 2 ^ 60 \<longrightarrow>
      (\<exists>n'. net_run S es \<lparr>nw_left = ti, nw_right = tr, nw_lr = [], nw_rl = []\<rparr> =
        Returns (fst (fifo_run es \<lparr>q_lr = [], q_rl = []\<rparr>), n')))"
proof -
  from run_agrees [OF S keys, of None None XX no_kn "[(e1, p1), (e2, p2), (e3, p3)]"] rnd
  obtain ms i r where run: "run_handshake S [(e1, p1), (e2, p2), (e3, p3)]
      (HandshakeState_new S XX True a None) (HandshakeState_new S XX False b None) =
      Returns (Some (ms, [p1, p2, p3], i, r))" and agree: "agreed S a b i r" by auto
  let ?ti = "TransportState_new S (tp_send (fst (hs_split S i))) (tp_recv (fst (hs_split S i)))"
  let ?tr = "TransportState_new S (tp_send (fst (hs_split S r))) (tp_recv (fst (hs_split S r)))"
  note fresh = split_fresh [OF run_lawsD(1) [OF S], of i]
  have peer: "?tr = peer_view ?ti"
    using agree by (simp add: agreed_def TransportState_new_def peer_view_def)
  have "settled ?ti"
    using fresh by (simp add: settled_def wf_transport_def TransportState_new_def needs_rekey_def
        send_nonce_def recv_nonce_def cs_obj.move_keeps push_bit_eq_mult)
  from converse_delivers [OF run_lawsD(2) [OF S] this, of xs] peer obtain ti'
    where "converse S xs ?ti ?tr = Returns (Some (map snd xs, ti', peer_view ti'))" by auto
  moreover have "cs_has_key (ts_send ?ti)" "cs_has_key (ts_recv ?ti)"
    using fresh by (simp_all add: TransportState_new_def cs_obj.move_keeps)
  moreover have "wf_transport ?ti" "send_nonce ?ti = 0" "recv_nonce ?ti = 0"
    using fresh by (simp_all add: wf_transport_def TransportState_new_def send_nonce_def recv_nonce_def cs_obj.move_keeps)
  with mirrored_fifo [OF run_lawsD(2) [OF S], of ?ti es] peer
  have "sends True es < 2 ^ 60 \<and> sends False es < 2 ^ 60 \<longrightarrow>
      (\<exists>n'. net_run S es \<lparr>nw_left = ?ti, nw_right = ?tr, nw_lr = [], nw_rl = []\<rparr> =
        Returns (fst (fifo_run es \<lparr>q_lr = [], q_rl = []\<rparr>), n'))" by simp
  ultimately show ?thesis using run by blast
qed

theorem handshake_then_conversation_witness:
  "let a = generate_keypair toy_sodium (replicate 32 3); b = generate_keypair toy_sodium (replicate 32 5);
       xs = [(True, [1]), (False, [2, 3]), (False, [])] in
   \<exists>ms i r ti tr ti' tr'.
    run_handshake toy_sodium [(replicate 32 1, []), (replicate 32 2, [7]), (replicate 32 4, [])]
      (HandshakeState_new toy_sodium XX True a None) (HandshakeState_new toy_sodium XX False b None) =
      Returns (Some (ms, [[], [7], []], i, r)) \<and>
    ti = TransportState_new toy_sodium (tp_send (fst (hs_split toy_sodium i))) (tp_recv (fst (hs_split toy_sodium i))) \<and>
    tr = TransportState_new toy_sodium (tp_send (fst (hs_split toy_sodium r))) (tp_recv (fst (hs_split toy_sodium r))) \<and>
    cs_has_key (ts_send ti) \<and> cs_has_key (ts_recv ti) \<and>
    converse toy_sodium xs ti tr = Returns (Some (map snd xs, ti', tr')) \<and> tr' = peer_view ti' \<and>
    (\<exists>n'. net_run toy_sodium [Send True [1], Send False [2], Deliver True, Deliver False]
       \<lparr>nw_left = ti, nw_right = tr, nw_lr = [], nw_rl = []\<rparr> = Returns ([Sent, Sent, Delivered [1], Delivered [2]], n'))"
proof -
  let ?a = "generate_keypair toy_sodium (replicate 32 3)" and ?b = "generate_keypair toy_sodium (replicate 32 5)"
  let ?es = "[Send True [1], Send False [2], Deliver True, Deliver False]"
  have keys: "own_keypair toy_sodium (kp_sk ?a) (kp_pk ?a)" "own_keypair toy_sodium (kp_sk ?b) (kp_pk ?b)"
    and len: "length (replicate 32 x :: bytes) = 32" for x by (simp_all add: own_keypair_generate)
  have "sends True ?es < 2 ^ 60 \<and> sends False ?es < 2 ^ 60"
    "fst (fifo_run ?es \<lparr>q_lr = [], q_rl = []\<rparr>) = [Sent, Sent, Delivered [1], Delivered [2]]" by simp_all
  with handshake_then_conversation [OF toy_run_laws keys len len len, of 1 "[]" 2 "[7]" 4 "[]" "[(True, [1]), (False, [2, 3]), (False, [])]" ?es]
  show ?thesis unfolding Let_def by simp
qed



end
